theory Spec2Isabelle
  imports Main "HOL-Library.Char_ord" "HOL-Library.List_Lexorder"
begin

section \<open>The service worker of the triage application (sw.js, version v2.1.0)\<close>

text \<open>
  The background agent keeps two things: the named caches of the platform's cache storage
  and the IndexedDB object store of patient records. Each asynchronous function of the
  source becomes a function from the state before to the state after; a rejected promise
  is the left summand of a sum type, and the outcome of each platform request (a fetch,
  an IndexedDB request) is an argument of the model.
\<close>

subsection \<open>Constants\<close>

definition CACHE_VERSION :: string where
  "CACHE_VERSION = ''v2.1.0''"

definition CACHE_NAME :: string where
  "CACHE_NAME = ''upline-triage-'' @ CACHE_VERSION"

definition DYNAMIC_CACHE :: string where
  "DYNAMIC_CACHE = ''upline-dynamic-v2''"

definition OFFLINE_URL :: string where
  "OFFLINE_URL = ''/offline.html''"

definition urlsToCache :: "string list" where
  "urlsToCache =
     [''/'', ''/index.html'', ''/manifest.json'', ''/styles.css'', ''/app.js'',
      ''/icon-192.png'', ''/icon-512.png'', ''/icons/icon-72x72.png'',
      ''/icons/icon-96x96.png'', ''/icons/icon-128x128.png'',
      ''/icons/icon-144x144.png'', ''/icons/icon-152x152.png'', ''/offline.html'']"

subsection \<open>Responses and the cache storage\<close>

record response =
  status :: nat
  content_type :: string
  body :: string

text \<open>\<open>response.ok\<close>: the status is in the range 200 to 299.\<close>

definition ok :: "response \<Rightarrow> bool" where
  "ok r \<longleftrightarrow> 200 \<le> status r \<and> status r \<le> 299"

text \<open>
  A cache is the list of its entries, oldest insertion first, keyed by the request URL;
  the cache storage is the list of the named caches, oldest creation first.
\<close>

type_synonym cache = "(string \<times> response) list"

type_synonym cache_storage = "(string \<times> cache) list"

definition cache_keys :: "cache \<Rightarrow> string list" where
  "cache_keys c = map fst c"

definition cache_delete :: "string \<Rightarrow> cache \<Rightarrow> cache" where
  "cache_delete k c = filter (\<lambda>e. fst e \<noteq> k) c"

text \<open>\<open>cache.put\<close> removes the entry of the same request and appends the new one.\<close>

definition cache_put :: "string \<Rightarrow> response \<Rightarrow> cache \<Rightarrow> cache" where
  "cache_put k r c = filter (\<lambda>e. fst e \<noteq> k) c @ [(k, r)]"

definition cache_match :: "string \<Rightarrow> cache \<Rightarrow> response option" where
  "cache_match k c = map_of c k"

definition caches_keys :: "cache_storage \<Rightarrow> string list" where
  "caches_keys cs = map fst cs"

definition caches_delete :: "string \<Rightarrow> cache_storage \<Rightarrow> cache_storage" where
  "caches_delete name cs = filter (\<lambda>e. fst e \<noteq> name) cs"

text \<open>\<open>caches.open\<close> creates the named cache when it does not exist yet.\<close>

definition caches_open :: "string \<Rightarrow> cache_storage \<Rightarrow> cache \<times> cache_storage" where
  "caches_open name cs =
     (case map_of cs name of
        Some c \<Rightarrow> (c, cs)
      | None \<Rightarrow> ([], cs @ [(name, [])]))"

text \<open>Writing through an opened cache object changes the cache of that name.\<close>

definition caches_store :: "string \<Rightarrow> cache \<Rightarrow> cache_storage \<Rightarrow> cache_storage" where
  "caches_store name c cs = map (\<lambda>e. if fst e = name then (name, c) else e) cs"

text \<open>\<open>caches.match\<close> asks every cache, in creation order, and gives the first hit.\<close>

fun caches_match :: "string \<Rightarrow> cache_storage \<Rightarrow> response option" where
  "caches_match k [] = None"
| "caches_match k (e # cs) =
     (case cache_match k (snd e) of
        Some r \<Rightarrow> Some r
      | None \<Rightarrow> caches_match k cs)"

definition cache_named :: "string \<Rightarrow> cache_storage \<Rightarrow> cache" where
  "cache_named name cs = (case map_of cs name of Some c \<Rightarrow> c | None \<Rightarrow> [])"

subsection \<open>Activation: deleting old caches\<close>

definition startsWith :: "string \<Rightarrow> string \<Rightarrow> bool" where
  "startsWith s p \<longleftrightarrow> take (length p) s = p"

text \<open>The test of the activate handler on one cache name.\<close>

definition is_old_cache :: "string \<Rightarrow> bool" where
  "is_old_cache cacheName \<longleftrightarrow>
     cacheName \<noteq> CACHE_NAME \<and> cacheName \<noteq> DYNAMIC_CACHE \<and>
     startsWith cacheName ''upline-triage-''"

definition activate_deleted :: "cache_storage \<Rightarrow> string list" where
  "activate_deleted cs = filter is_old_cache (caches_keys cs)"

definition activate :: "cache_storage \<Rightarrow> cache_storage" where
  "activate cs = fold caches_delete (activate_deleted cs) cs"

text \<open>
  The activation cleanup in the words of the specification: every cache that is neither
  the current shell generation nor the current dynamic generation goes.
\<close>

definition activate_spec :: "cache_storage \<Rightarrow> cache_storage" where
  "activate_spec cs = filter (\<lambda>e. fst e = CACHE_NAME \<or> fst e = DYNAMIC_CACHE) cs"

subsection \<open>The size bound of the dynamic cache\<close>

definition cleanupCache :: "cache_storage \<Rightarrow> cache_storage" where
  "cleanupCache cs =
     (let (cache, cs1) = caches_open DYNAMIC_CACHE cs;
          keys = cache_keys cache
      in if length keys > 100
         then (let itemsToDelete = take (length keys - 100) keys
               in caches_store DYNAMIC_CACHE (fold cache_delete itemsToDelete cache) cs1)
         else cs1)"

text \<open>A dynamic cache of \<open>n\<close> entries under distinct request URLs, for examples.\<close>

definition example_request :: "nat \<Rightarrow> string" where
  "example_request i = ''/img/'' @ replicate i (CHR ''x'')"

definition example_cache :: "nat \<Rightarrow> cache" where
  "example_cache n =
     map (\<lambda>i. (example_request i, \<lparr>status = 200, content_type = ''image/png'', body = ''''\<rparr>))
       [0..<n]"

text \<open>
  The cache storage left behind by the previous release (shell \<open>upline-triage-v2\<close>, dynamic
  \<open>upline-dynamic-v1\<close>) once the caches of this release exist.
\<close>

definition old_caches :: cache_storage where
  "old_caches =
     [(''upline-triage-v2'', []), (''upline-dynamic-v1'', []),
      (CACHE_NAME, []), (DYNAMIC_CACHE, [])]"

text \<open>
  The same storage with a copy of one request in each dynamic cache: the one that the
  previous release stored, and the one that this release stored later.
\<close>

definition stale_caches :: cache_storage where
  "stale_caches =
     [(''upline-triage-v2'', []),
      (''upline-dynamic-v1'',
         [(''/styles.css'', \<lparr>status = 200, content_type = ''text/css'', body = ''old''\<rparr>)]),
      (CACHE_NAME, []),
      (DYNAMIC_CACHE,
         [(''/styles.css'', \<lparr>status = 200, content_type = ''text/css'', body = ''new''\<rparr>)])]"

subsection \<open>Errors and the network\<close>

text \<open>
  What a rejected promise carries: a \<open>TypeError\<close> with its message (a failed fetch, a
  property read on \<open>undefined\<close>) or a \<open>DOMException\<close> with its name and message (the
  error of an IndexedDB request).
\<close>

datatype error = TypeError string | DOMException string string

fun message :: "error \<Rightarrow> string" where
  "message (TypeError m) = m"
| "message (DOMException n m) = m"

text \<open>
  The network is the outcome of \<open>fetch\<close> for each URL: a response of any status, or a
  rejection when the network cannot be reached.
\<close>

type_synonym network = "string \<Rightarrow> error + response"

subsection \<open>Installation\<close>

text \<open>
  \<open>cache.addAll\<close> fetches every URL and stores the responses only when every fetch
  succeeded with an \<open>ok\<close> status; otherwise it rejects and stores nothing.
\<close>

fun fetch_all :: "network \<Rightarrow> string list \<Rightarrow> error + (string \<times> response) list" where
  "fetch_all net [] = Inr []"
| "fetch_all net (u # us) =
     (case net u of
        Inl e \<Rightarrow> Inl e
      | Inr r \<Rightarrow>
          if ok r
          then (case fetch_all net us of
                  Inl e \<Rightarrow> Inl e
                | Inr rs \<Rightarrow> Inr ((u, r) # rs))
          else Inl (TypeError ''Request failed''))"

definition cache_addAll :: "network \<Rightarrow> string list \<Rightarrow> cache \<Rightarrow> error + cache" where
  "cache_addAll net urls c =
     (case fetch_all net urls of
        Inl e \<Rightarrow> Inl e
      | Inr rs \<Rightarrow> Inr (fold (\<lambda>e. cache_put (fst e) (snd e)) rs c))"

text \<open>The two combinators of a promise chain.\<close>

definition then_p :: "error + 'a \<Rightarrow> ('a \<Rightarrow> error + 'b) \<Rightarrow> error + 'b" where
  "then_p p f = (case p of Inl e \<Rightarrow> Inl e | Inr x \<Rightarrow> f x)"

definition catch_p :: "error + 'a \<Rightarrow> (error \<Rightarrow> error + 'a) \<Rightarrow> error + 'a" where
  "catch_p p h = (case p of Inl e \<Rightarrow> h e | Inr x \<Rightarrow> Inr x)"

text \<open>
  The install handler hands \<open>event.waitUntil\<close> the chain
  \<open>caches.open(CACHE_NAME).then(addAll).then(skipWaiting).catch(log)\<close>. The platform
  installs the worker when that promise is fulfilled and discards the worker when it is
  rejected. The value of the chain says which step ended it.
\<close>

datatype install_step = SkippedWaiting | LoggedInstallFailed

record install_result =
  caches_after :: cache_storage
  waitUntil :: "error + install_step"

definition install :: "network \<Rightarrow> cache_storage \<Rightarrow> install_result" where
  "install net cs =
     (let (cache, cs1) = caches_open CACHE_NAME cs;
          added = cache_addAll net urlsToCache cache;
          chain = catch_p (then_p added (\<lambda>_. Inr SkippedWaiting))
                    (\<lambda>error. Inr LoggedInstallFailed)
      in \<lparr>caches_after =
            (case added of Inl e \<Rightarrow> cs1 | Inr cache' \<Rightarrow> caches_store CACHE_NAME cache' cs1),
          waitUntil = chain\<rparr>)"

definition installed :: "install_result \<Rightarrow> bool" where
  "installed r = (case waitUntil r of Inl e \<Rightarrow> False | Inr s \<Rightarrow> True)"

definition asset_response :: "nat \<Rightarrow> response" where
  "asset_response st = \<lparr>status = st, content_type = ''text/plain'', body = ''''\<rparr>"

text \<open>
  The install handler of the release before (cache \<open>upline-triage-v2\<close>, seven assets):
  the same chain, without the \<open>catch\<close>.
\<close>

definition urlsToCache_v2 :: "string list" where
  "urlsToCache_v2 =
     [''/'', ''/index.html'', ''/manifest.json'', ''/styles.css'', ''/app.js'',
      ''/icon-192.png'', ''/icon-512.png'']"

definition install_v2 :: "network \<Rightarrow> cache_storage \<Rightarrow> install_result" where
  "install_v2 net cs =
     (let (cache, cs1) = caches_open ''upline-triage-v2'' cs;
          added = cache_addAll net urlsToCache_v2 cache;
          chain = then_p added (\<lambda>_. Inr SkippedWaiting)
      in \<lparr>caches_after =
            (case added of
               Inl e \<Rightarrow> cs1
             | Inr cache' \<Rightarrow> caches_store ''upline-triage-v2'' cache' cs1),
          waitUntil = chain\<rparr>)"

definition net_missing_icon :: network where
  "net_missing_icon u =
     (if u = ''/icon-512.png'' then Inr (asset_response 404) else Inr (asset_response 200))"

text \<open>A server on which every asset is there, except \<open>/offline.html\<close>, which is 404.\<close>

definition net_missing_offline :: network where
  "net_missing_offline u =
     (if u = ''/offline.html'' then Inr (asset_response 404) else Inr (asset_response 200))"

text \<open>The caches of a working installation of the previous release.\<close>

definition previous_release :: cache_storage where
  "previous_release =
     [(''upline-triage-v2'',
        [(''/'', asset_response 200), (''/index.html'', asset_response 200)]),
      (''upline-dynamic-v1'', [])]"

subsection \<open>Request routing\<close>

text \<open>
  A request with the parts of its URL that the fetch listener looks at. The request
  itself is the key of a cache entry; the model keys the entry by the URL.
\<close>

record request =
  url :: string
  request_method :: string
  mode :: string
  destination :: string
  protocol :: string
  pathname :: string
  origin :: string

fun includes_str :: "string \<Rightarrow> string \<Rightarrow> bool" where
  "includes_str [] p = (p = [])"
| "includes_str (c # s) p = (startsWith (c # s) p \<or> includes_str s p)"

datatype route = PassThrough | Api | Navigation | Static | External

text \<open>The order of the tests of the fetch listener; the first that holds decides.\<close>

definition classify :: "string \<Rightarrow> request \<Rightarrow> route" where
  "classify location_origin req =
     (if request_method req \<noteq> ''GET'' then PassThrough
      else if protocol req = ''chrome-extension:'' then PassThrough
      else if includes_str (pathname req) ''/api/'' then Api
      else if mode req = ''navigate'' then Navigation
      else if origin req = location_origin then Static
      else External)"

subsection \<open>Writing into a cache\<close>

text \<open>
  The strategies write with \<open>caches.open\<close> and \<open>cache.put\<close> inside a \<open>try\<close>, and either
  call may reject. \<open>cache.put\<close> refuses, with a \<open>TypeError\<close>, a request whose scheme is
  not http or https or whose method is not GET, and a response of status 206. Any other
  rejection (the storage quota is used up, the response carries \<open>Vary: *\<close>) is given by
  the event: \<open>open_fault\<close> is the error with which \<open>caches.open\<close> rejects and \<open>put_fault\<close>
  the error with which \<open>cache.put\<close> rejects, if they do. \<open>caches.match\<close> has no rejection
  of its own and is taken to succeed.
\<close>

record cache_faults =
  open_fault :: "error option"
  put_fault :: "error option"

definition put_refused :: "request \<Rightarrow> response \<Rightarrow> error option" where
  "put_refused req r =
     (if protocol req \<noteq> ''http:'' \<and> protocol req \<noteq> ''https:''
        then Some (TypeError ''Request scheme is unsupported'')
      else if request_method req \<noteq> ''GET''
        then Some (TypeError ''Request method is unsupported'')
      else if status r = 206
        then Some (TypeError ''Partial response (status code 206) is unsupported'')
      else None)"

definition caches_open_try ::
  "cache_faults \<Rightarrow> string \<Rightarrow> cache_storage \<Rightarrow> error + cache \<times> cache_storage" where
  "caches_open_try faults name cs =
     (case open_fault faults of
        Some error \<Rightarrow> Inl error
      | None \<Rightarrow> Inr (caches_open name cs))"

definition cache_put_try :: "cache_faults \<Rightarrow> request \<Rightarrow> response \<Rightarrow> cache \<Rightarrow> error + cache" where
  "cache_put_try faults req r c =
     (case put_refused req r of
        Some error \<Rightarrow> Inl error
      | None \<Rightarrow>
          (case put_fault faults of
             Some error \<Rightarrow> Inl error
           | None \<Rightarrow> Inr (cache_put (url req) r c)))"

definition no_faults :: cache_faults where
  "no_faults = \<lparr>open_fault = None, put_fault = None\<rparr>"

subsection \<open>Writing JSON\<close>

text \<open>
  The values that \<open>JSON.stringify\<close> writes and \<open>JSON.parse\<close> reads. A string is the
  sequence of the bytes of its UTF-8 encoding. A number is an integer, which is what the
  records of this application hold (\<open>age: parseInt(...)\<close>, \<open>totalPatients\<close>); the model
  covers the integers that \<open>JSON.stringify\<close> writes in plain digits (those of magnitude
  below \<open>10^21\<close> that a double holds exactly). An object is the list of its properties in
  the order in which they are enumerated.
\<close>

datatype json =
    JSON_null
  | JSON_bool bool
  | JSON_number int
  | JSON_string string
  | JSON_array "json list"
  | JSON_object "(string \<times> json) list"

text \<open>
  \<open>QuoteJSONString\<close>: the quote and the backslash are escaped, the control characters
  are written by their short escapes where there is one and as \<open>\u00XX\<close> (in lower-case
  hexadecimal) otherwise.
\<close>

definition hex_digit :: "nat \<Rightarrow> char" where
  "hex_digit n = (if n < 10 then char_of (48 + n) else char_of (87 + n))"

definition escape_char :: "char \<Rightarrow> string" where
  "escape_char c =
     (if c = CHR 0x22 then [CHR 0x5C, CHR 0x22]
      else if c = CHR 0x5C then [CHR 0x5C, CHR 0x5C]
      else if c = CHR 0x08 then [CHR 0x5C, CHR ''b'']
      else if c = CHR 0x0C then [CHR 0x5C, CHR ''f'']
      else if c = CHR 0x0A then [CHR 0x5C, CHR ''n'']
      else if c = CHR 0x0D then [CHR 0x5C, CHR ''r'']
      else if c = CHR 0x09 then [CHR 0x5C, CHR ''t'']
      else if (of_char c :: nat) < 32
        then [CHR 0x5C, CHR ''u'', CHR ''0'', CHR ''0'',
              hex_digit (of_char c div 16), hex_digit (of_char c mod 16)]
      else [c])"

definition quote :: "string \<Rightarrow> string" where
  "quote s = CHR 0x22 # concat (map escape_char s) @ [CHR 0x22]"

fun digits :: "nat \<Rightarrow> string" where
  "digits n = (if n < 10 then [char_of (48 + n)] else digits (n div 10) @ [char_of (48 + n mod 10)])"

definition number_text :: "int \<Rightarrow> string" where
  "number_text n = (if n < 0 then CHR ''-'' # digits (nat (- n)) else digits (nat n))"

fun join :: "'a list \<Rightarrow> 'a list list \<Rightarrow> 'a list" where
  "join sep [] = []"
| "join sep [x] = x"
| "join sep (x # y # ys) = x @ sep @ join sep (y # ys)"

definition spaces :: "nat \<Rightarrow> string" where
  "spaces n = replicate n (CHR '' '')"

text \<open>
  The layout of an array or an object (\<open>SerializeJSONArray\<close>, \<open>SerializeJSONObject\<close>):
  \<open>gap\<close> is the number of spaces of one level and \<open>indent\<close> the indentation around the
  value. Without a gap the parts are joined by commas; with a gap each part stands on a
  line of its own, indented one level more, and the closing bracket on a line at the
  indentation around. An empty array or object is its two brackets.
\<close>

definition wrap :: "nat \<Rightarrow> nat \<Rightarrow> string \<Rightarrow> string \<Rightarrow> string list \<Rightarrow> string" where
  "wrap gap indent opening closing partial =
     (if partial = [] then opening @ closing
      else if gap = 0 then opening @ join '','' partial @ closing
      else opening @ [CHR 0x0A] @ spaces (indent + gap) @
           join ('','' @ [CHR 0x0A] @ spaces (indent + gap)) partial @
           [CHR 0x0A] @ spaces indent @ closing)"

primrec serialize :: "nat \<Rightarrow> json \<Rightarrow> nat \<Rightarrow> string" where
  "serialize gap JSON_null indent = ''null''"
| "serialize gap (JSON_bool b) indent = (if b then ''true'' else ''false'')"
| "serialize gap (JSON_number n) indent = number_text n"
| "serialize gap (JSON_string s) indent = quote s"
| "serialize gap (JSON_array elements) indent =
     wrap gap indent ''['' '']'' (map (\<lambda>v. serialize gap v (indent + gap)) elements)"
| "serialize gap (JSON_object properties) indent =
     wrap gap indent ''{'' ''}''
       (map (\<lambda>p. quote (fst p) @ '':'' @ (if gap = 0 then [] else '' '') @ snd p)
          (map (map_prod id (\<lambda>v. serialize gap v (indent + gap))) properties))"

text \<open>
  \<open>JSON.stringify(value, null, space)\<close> with a number for \<open>space\<close>: at most ten spaces a
  level. \<open>JSON.stringify(value)\<close> is \<open>JSON_stringify 0 value\<close>.
\<close>

definition JSON_stringify :: "nat \<Rightarrow> json \<Rightarrow> string" where
  "JSON_stringify space v = serialize (min 10 space) v 0"

subsection \<open>Reading JSON\<close>

text \<open>
  \<open>JSON.parse\<close>: the text is split into tokens, one character at a time, and the tokens
  are read as one value; \<open>None\<close> is the \<open>SyntaxError\<close>. The state of \<open>lex\<close> says what it
  is in the middle of: a number (its sign, whether it is a lone zero, its value so far),
  one of the words \<open>true\<close>, \<open>false\<close>, \<open>null\<close> (the letters still expected), a string
  (its characters, last first), an escape, or the four hexadecimal digits of a \<open>\u\<close>
  escape. Two forms of the grammar are left out and refused here: a number with a
  fraction or an exponent, and a \<open>\u\<close> escape of a character above 127.
\<close>

datatype token =
    LBrace | RBrace | LBracket | RBracket | Colon | Comma
  | TString string | TNumber int | TTrue | TFalse | TNull

definition whitespace :: "char \<Rightarrow> bool" where
  "whitespace c \<longleftrightarrow> c = CHR '' '' \<or> c = CHR 0x09 \<or> c = CHR 0x0A \<or> c = CHR 0x0D"

definition punctuation :: "char \<Rightarrow> token option" where
  "punctuation c =
     (if c = CHR ''{'' then Some LBrace
      else if c = CHR ''}'' then Some RBrace
      else if c = CHR ''['' then Some LBracket
      else if c = CHR '']'' then Some RBracket
      else if c = CHR '':'' then Some Colon
      else if c = CHR '','' then Some Comma
      else None)"

definition digit_value :: "char \<Rightarrow> nat option" where
  "digit_value c =
     (if 48 \<le> (of_char c :: nat) \<and> (of_char c :: nat) \<le> 57 then Some (of_char c - 48) else None)"

definition hex_value :: "char \<Rightarrow> nat option" where
  "hex_value c =
     (let n = (of_char c :: nat)
      in if 48 \<le> n \<and> n \<le> 57 then Some (n - 48)
         else if 97 \<le> n \<and> n \<le> 102 then Some (n - 87)
         else if 65 \<le> n \<and> n \<le> 70 then Some (n - 55)
         else None)"

definition literal_start :: "char \<Rightarrow> (string \<times> token) option" where
  "literal_start c =
     (if c = CHR ''t'' then Some (''rue'', TTrue)
      else if c = CHR ''f'' then Some (''alse'', TFalse)
      else if c = CHR ''n'' then Some (''ull'', TNull)
      else None)"

definition unescape :: "char \<Rightarrow> char option" where
  "unescape c =
     (if c = CHR 0x22 \<or> c = CHR 0x5C \<or> c = CHR ''/'' then Some c
      else if c = CHR ''b'' then Some (CHR 0x08)
      else if c = CHR ''f'' then Some (CHR 0x0C)
      else if c = CHR ''n'' then Some (CHR 0x0A)
      else if c = CHR ''r'' then Some (CHR 0x0D)
      else if c = CHR ''t'' then Some (CHR 0x09)
      else None)"

definition signed :: "bool \<Rightarrow> nat \<Rightarrow> int" where
  "signed negative v = (if negative then - int v else int v)"

datatype lex_state =
    Outside
  | InMinus
  | InNumber bool bool nat
  | InLiteral string token
  | InString string
  | InEscape string
  | InHex string "nat list"

fun lex :: "lex_state \<Rightarrow> string \<Rightarrow> token list option" where
  "lex Outside [] = Some []"
| "lex (InNumber negative zero v) [] = Some [TNumber (signed negative v)]"
| "lex st [] = None"
| "lex Outside (c # cs) =
     (if whitespace c then lex Outside cs
      else case punctuation c of
             Some t \<Rightarrow> map_option ((#) t) (lex Outside cs)
           | None \<Rightarrow>
               if c = CHR 0x22 then lex (InString []) cs
               else if c = CHR ''-'' then lex InMinus cs
               else case digit_value c of
                      Some d \<Rightarrow> lex (InNumber False (d = 0) d) cs
                    | None \<Rightarrow>
                        (case literal_start c of
                           Some l \<Rightarrow> lex (InLiteral (fst l) (snd l)) cs
                         | None \<Rightarrow> None))"
| "lex InMinus (c # cs) =
     (case digit_value c of
        Some d \<Rightarrow> lex (InNumber True (d = 0) d) cs
      | None \<Rightarrow> None)"
| "lex (InNumber negative zero v) (c # cs) =
     (case digit_value c of
        Some d \<Rightarrow> if zero then None else lex (InNumber negative False (10 * v + d)) cs
      | None \<Rightarrow>
          if whitespace c then map_option ((#) (TNumber (signed negative v))) (lex Outside cs)
          else case punctuation c of
                 Some t \<Rightarrow>
                   map_option (\<lambda>ts. TNumber (signed negative v) # t # ts) (lex Outside cs)
               | None \<Rightarrow> None)"
| "lex (InLiteral expected t) (c # cs) =
     (case expected of
        [] \<Rightarrow> None
      | e # es \<Rightarrow>
          if c \<noteq> e then None
          else if es = [] then map_option ((#) t) (lex Outside cs)
          else lex (InLiteral es t) cs)"
| "lex (InString acc) (c # cs) =
     (if c = CHR 0x22 then map_option ((#) (TString (rev acc))) (lex Outside cs)
      else if c = CHR 0x5C then lex (InEscape acc) cs
      else if (of_char c :: nat) < 32 then None
      else lex (InString (c # acc)) cs)"
| "lex (InEscape acc) (c # cs) =
     (if c = CHR ''u'' then lex (InHex acc []) cs
      else case unescape c of
             Some d \<Rightarrow> lex (InString (d # acc)) cs
           | None \<Rightarrow> None)"
| "lex (InHex acc hs) (c # cs) =
     (case hex_value c of
        None \<Rightarrow> None
      | Some h \<Rightarrow>
          if length hs < 3 then lex (InHex acc (hs @ [h])) cs
          else (let code = fold (\<lambda>h v. 16 * v + h) (hs @ [h]) 0
                in if code < 128 then lex (InString (char_of code # acc)) cs else None))"

text \<open>
  The value that a list of tokens spells, and the tokens left after it. The first
  argument bounds the depth of the recursion; \<open>JSON_parse\<close> gives it the number of the
  tokens, which is enough for the tokens of every value.
\<close>

fun parse_value :: "nat \<Rightarrow> token list \<Rightarrow> (json \<times> token list) option"
  and parse_elements :: "nat \<Rightarrow> token list \<Rightarrow> (json list \<times> token list) option"
  and parse_properties :: "nat \<Rightarrow> token list \<Rightarrow> ((string \<times> json) list \<times> token list) option"
where
  "parse_value 0 ts = None"
| "parse_value (Suc fuel) ts =
     (case ts of
        [] \<Rightarrow> None
      | t # rest \<Rightarrow>
          (case t of
             TNull \<Rightarrow> Some (JSON_null, rest)
           | TTrue \<Rightarrow> Some (JSON_bool True, rest)
           | TFalse \<Rightarrow> Some (JSON_bool False, rest)
           | TNumber n \<Rightarrow> Some (JSON_number n, rest)
           | TString s \<Rightarrow> Some (JSON_string s, rest)
           | LBracket \<Rightarrow>
               (case rest of
                  [] \<Rightarrow> None
                | t' # rest' \<Rightarrow>
                    if t' = RBracket then Some (JSON_array [], rest')
                    else map_option (apfst JSON_array) (parse_elements fuel rest))
           | LBrace \<Rightarrow>
               (case rest of
                  [] \<Rightarrow> None
                | t' # rest' \<Rightarrow>
                    if t' = RBrace then Some (JSON_object [], rest')
                    else map_option (apfst JSON_object) (parse_properties fuel rest))
           | _ \<Rightarrow> None))"
| "parse_elements 0 ts = None"
| "parse_elements (Suc fuel) ts =
     (case parse_value fuel ts of
        None \<Rightarrow> None
      | Some r \<Rightarrow>
          (case snd r of
             [] \<Rightarrow> None
           | t # rest \<Rightarrow>
               if t = RBracket then Some ([fst r], rest)
               else if t = Comma
                 then map_option (apfst ((#) (fst r))) (parse_elements fuel rest)
               else None))"
| "parse_properties 0 ts = None"
| "parse_properties (Suc fuel) ts =
     (case ts of
        TString k # Colon # ts' \<Rightarrow>
          (case parse_value fuel ts' of
             None \<Rightarrow> None
           | Some r \<Rightarrow>
               (case snd r of
                  [] \<Rightarrow> None
                | t # rest \<Rightarrow>
                    if t = RBrace then Some ([(k, fst r)], rest)
                    else if t = Comma
                      then map_option (apfst ((#) (k, fst r))) (parse_properties fuel rest)
                    else None))
      | _ \<Rightarrow> None)"

definition JSON_parse :: "string \<Rightarrow> json option" where
  "JSON_parse text =
     (case lex Outside text of
        None \<Rightarrow> None
      | Some ts \<Rightarrow>
          (case parse_value (length ts) ts of
             None \<Rightarrow> None
           | Some r \<Rightarrow> if snd r = [] then Some (fst r) else None))"

text \<open>The tokens of the text that \<open>serialize\<close> writes for a value.\<close>

primrec toks :: "json \<Rightarrow> token list" where
  "toks JSON_null = [TNull]"
| "toks (JSON_bool b) = [if b then TTrue else TFalse]"
| "toks (JSON_number n) = [TNumber n]"
| "toks (JSON_string s) = [TString s]"
| "toks (JSON_array elements) = LBracket # join [Comma] (map toks elements) @ [RBracket]"
| "toks (JSON_object properties) =
     LBrace #
     join [Comma] (map (\<lambda>p. TString (fst p) # Colon # snd p) (map (map_prod id toks) properties)) @
     [RBrace]"

text \<open>A text that ends a number standing before it: it is empty or starts with a blank or a sign.\<close>

definition delimited :: "string \<Rightarrow> bool" where
  "delimited rest \<longleftrightarrow>
     (case rest of [] \<Rightarrow> True | c # cs \<Rightarrow> whitespace c \<or> punctuation c \<noteq> None)"

subsection \<open>The strategies of the fetch listener\<close>

text \<open>\<open>new Response(body, { headers: { 'Content-Type': t } })\<close> has status 200.\<close>

definition new_Response :: "string \<Rightarrow> string \<Rightarrow> response" where
  "new_Response b t = \<lparr>status = 200, content_type = t, body = b\<rparr>"

text \<open>
  The strategies return the promise handed to \<open>event.respondWith\<close> and the cache
  storage they leave. \<open>now\<close> is what \<open>new Date().toISOString()\<close> gives.

  \<open>fetch_and_cache\<close> is the \<open>try\<close> block of the four strategies: fetch the request,
  open the dynamic cache and put the response into it, return the response. The
  navigation strategy writes whatever the status is (\<open>any_status\<close>), the others
  \<open>if (response.ok)\<close>. The block is left with the error of the first step that fails: the
  fetch, \<open>caches.open\<close> or \<open>cache.put\<close>. A cache that \<open>caches.open\<close> has created stays
  when the \<open>put\<close> fails.
\<close>

definition fetch_and_cache ::
  "bool \<Rightarrow> cache_faults \<Rightarrow> network \<Rightarrow> request \<Rightarrow> cache_storage
     \<Rightarrow> (error + response) \<times> cache_storage" where
  "fetch_and_cache any_status faults net req cs =
     (case net (url req) of
        Inl error \<Rightarrow> (Inl error, cs)
      | Inr response \<Rightarrow>
          if any_status \<or> ok response
          then (case caches_open_try faults DYNAMIC_CACHE cs of
                  Inl error \<Rightarrow> (Inl error, cs)
                | Inr opened \<Rightarrow>
                    (case cache_put_try faults req response (fst opened) of
                       Inl error \<Rightarrow> (Inl error, snd opened)
                     | Inr cache \<Rightarrow>
                         (Inr response, caches_store DYNAMIC_CACHE cache (snd opened))))
          else (Inr response, cs))"

text \<open>The object that the API strategy answers with when it has nothing else.\<close>

definition offline_object :: "string \<Rightarrow> json" where
  "offline_object now =
     JSON_object
       [(''error'', JSON_string ''You are offline''),
        (''timestamp'', JSON_string now),
        (''cache'', JSON_string ''miss'')]"

definition apiFirstStrategy ::
  "cache_faults \<Rightarrow> network \<Rightarrow> string \<Rightarrow> request \<Rightarrow> cache_storage
     \<Rightarrow> (error + response) \<times> cache_storage" where
  "apiFirstStrategy faults net now req cs =
     (let attempt = fetch_and_cache False faults net req cs
      in case fst attempt of
           Inr response \<Rightarrow> (Inr response, snd attempt)
         | Inl error \<Rightarrow>
             (case caches_match (url req) (snd attempt) of
                Some cachedResponse \<Rightarrow> (Inr cachedResponse, snd attempt)
              | None \<Rightarrow>
                  (Inr (new_Response (JSON_stringify 0 (offline_object now)) ''application/json''),
                   snd attempt)))"

text \<open>
  The page that the navigation strategy generates when nothing is cached: the lines of
  the template literal of the source. The warning sign in the heading is two code points,
  given here as the bytes of their UTF-8 encoding.
\<close>

definition warning_sign :: string where
  "warning_sign = [CHR 0xE2, CHR 0x9A, CHR 0xA0, CHR 0xEF, CHR 0xB8, CHR 0x8F]"

definition inline_offline_page :: string where
  \<open>inline_offline_page = concat (map (\<lambda>l. l @ [CHR 0x0A])
     ['''',
      ''      <!DOCTYPE html>'',
      ''      <html>'',
      ''        <head>'',
      ''          <title>Offline - Emergency Triage</title>'',
      ''          <style>'',
      ''            body { font-family: sans-serif; padding: 40px; text-align: center; }'',
      ''            .offline { color: #dc2626; font-size: 24px; margin-bottom: 20px; }'',
      ''            .message { color: #6b7280; margin-bottom: 30px; }'',
      ''          </style>'',
      ''        </head>'',
      ''        <body>'',
      ''          <h1 class="offline">'' @ warning_sign @ '' Offline Mode</h1>'',
      ''          <p class="message">You're currently offline. Basic triage functionality is available.</p>'',
      ''          <p class="message">Patients will be saved locally and synced when you're back online.</p>'',
      ''          <button onclick="location.reload()">Retry Connection</button>'',
      ''        </body>'',
      ''      </html>'']) @ ''    ''\<close>

definition navigationFirstStrategy ::
  "cache_faults \<Rightarrow> network \<Rightarrow> request \<Rightarrow> cache_storage
     \<Rightarrow> (error + response) \<times> cache_storage" where
  "navigationFirstStrategy faults net req cs =
     (let attempt = fetch_and_cache True faults net req cs
      in case fst attempt of
           Inr response \<Rightarrow> (Inr response, snd attempt)
         | Inl error \<Rightarrow>
             (case caches_match (url req) (snd attempt) of
                Some cachedResponse \<Rightarrow> (Inr cachedResponse, snd attempt)
              | None \<Rightarrow>
                  (case caches_match OFFLINE_URL (snd attempt) of
                     Some offlineResponse \<Rightarrow> (Inr offlineResponse, snd attempt)
                   | None \<Rightarrow>
                       (Inr (new_Response inline_offline_page ''text/html''), snd attempt))))"

text \<open>
  The fallback chain of the navigation strategy in the words of the specification: the
  dynamic cache, then the offline document, then the generated page.
\<close>

definition navigation_fallback_spec :: "request \<Rightarrow> cache_storage \<Rightarrow> response" where
  "navigation_fallback_spec req cs =
     (case cache_match (url req) (cache_named DYNAMIC_CACHE cs) of
        Some cachedResponse \<Rightarrow> cachedResponse
      | None \<Rightarrow>
          (case caches_match OFFLINE_URL cs of
             Some offlineResponse \<Rightarrow> offlineResponse
           | None \<Rightarrow> new_Response inline_offline_page ''text/html''))"

text \<open>
  \<open>updateCache\<close>: the revalidation that the cache-first strategy starts. It opens the
  dynamic cache before it fetches, and nothing catches inside it.
\<close>

definition updateCache ::
  "cache_faults \<Rightarrow> network \<Rightarrow> request \<Rightarrow> cache_storage \<Rightarrow> (error + unit) \<times> cache_storage" where
  "updateCache faults net req cs =
     (case caches_open_try faults DYNAMIC_CACHE cs of
        Inl error \<Rightarrow> (Inl error, cs)
      | Inr opened \<Rightarrow>
          (case net (url req) of
             Inl error \<Rightarrow> (Inl error, snd opened)
           | Inr response \<Rightarrow>
               if ok response
               then (case cache_put_try faults req response (fst opened) of
                       Inl error \<Rightarrow> (Inl error, snd opened)
                     | Inr cache \<Rightarrow> (Inr (), caches_store DYNAMIC_CACHE cache (snd opened)))
               else (Inr (), snd opened)))"

definition image_placeholder :: string where
  \<open>image_placeholder = concat
     [''<svg width="400" height="300" xmlns="http://www.w3.org/2000/svg">'', [CHR 0x0A],
      ''          <rect width="100%" height="100%" fill="#f3f4f6"/>'', [CHR 0x0A],
      ''          <text x="50%" y="50%" font-family="Arial" font-size="14" fill="#6b7280" text-anchor="middle">Image not available offline</text>'',
      [CHR 0x0A],
      ''        </svg>'']\<close>

text \<open>
  On a hit the cache-first strategy answers from the cache; the background revalidation
  has run by the time the event is over, and its failure is dropped.
\<close>

definition cacheFirstStrategy ::
  "cache_faults \<Rightarrow> network \<Rightarrow> request \<Rightarrow> cache_storage
     \<Rightarrow> (error + response) \<times> cache_storage" where
  "cacheFirstStrategy faults net req cs =
     (case caches_match (url req) cs of
        Some cachedResponse \<Rightarrow> (Inr cachedResponse, snd (updateCache faults net req cs))
      | None \<Rightarrow>
          (let attempt = fetch_and_cache False faults net req cs
           in case fst attempt of
                Inr response \<Rightarrow> (Inr response, snd attempt)
              | Inl error \<Rightarrow>
                  if destination req = ''image''
                  then (Inr (new_Response image_placeholder ''image/svg+xml''), snd attempt)
                  else (Inr \<lparr>status = 408, content_type = ''text/plain'',
                             body = ''Network error''\<rparr>,
                        snd attempt)))"

text \<open>The network-first strategy throws the error that it caught when no cache helps.\<close>

definition networkFirstStrategy ::
  "cache_faults \<Rightarrow> network \<Rightarrow> request \<Rightarrow> cache_storage
     \<Rightarrow> (error + response) \<times> cache_storage" where
  "networkFirstStrategy faults net req cs =
     (let attempt = fetch_and_cache False faults net req cs
      in case fst attempt of
           Inr response \<Rightarrow> (Inr response, snd attempt)
         | Inl error \<Rightarrow>
             (case caches_match (url req) (snd attempt) of
                Some cachedResponse \<Rightarrow> (Inr cachedResponse, snd attempt)
              | None \<Rightarrow> (Inl error, snd attempt)))"

text \<open>
  The fetch listener: a request that it does not take is left to the browser, any other
  is answered by the strategy of its class.
\<close>

datatype 'a responded = NotHandled | RespondWith 'a

definition fetch_listener ::
  "string \<Rightarrow> cache_faults \<Rightarrow> network \<Rightarrow> string \<Rightarrow> request \<Rightarrow> cache_storage
     \<Rightarrow> ((error + response) \<times> cache_storage) responded" where
  "fetch_listener location_origin faults net now req cs =
     (case classify location_origin req of
        PassThrough \<Rightarrow> NotHandled
      | Api \<Rightarrow> RespondWith (apiFirstStrategy faults net now req cs)
      | Navigation \<Rightarrow> RespondWith (navigationFirstStrategy faults net req cs)
      | Static \<Rightarrow> RespondWith (cacheFirstStrategy faults net req cs)
      | External \<Rightarrow> RespondWith (networkFirstStrategy faults net req cs))"

text \<open>Requests and a network that is down, for examples.\<close>

definition offline_net :: network where
  "offline_net u = Inl (TypeError ''Failed to fetch'')"

text \<open>
  A GET request to the worker's own origin. Its URL is written as the path, the way the
  manifest and \<open>OFFLINE_URL\<close> name the entries of that origin.
\<close>

definition self_origin :: string where
  "self_origin = ''https://triage.example''"

definition get_request :: "string \<Rightarrow> string \<Rightarrow> request" where
  "get_request path m =
     \<lparr>url = path, request_method = ''GET'', mode = m, destination = '''',
      protocol = ''https:'', pathname = path, origin = self_origin\<rparr>"

text \<open>
  A cache storage whose shell holds the start page and the offline document and whose
  dynamic cache is empty.
\<close>

definition shell_only :: cache_storage where
  "shell_only =
     [(CACHE_NAME,
        [(''/index.html'',
            \<lparr>status = 200, content_type = ''text/html'', body = ''<html>start</html>''\<rparr>),
         (OFFLINE_URL,
            \<lparr>status = 200, content_type = ''text/html'', body = ''<html>offline</html>''\<rparr>)]),
      (DYNAMIC_CACHE, [])]"

text \<open>
  A server that answers every request with a partial response, and an event in which
  the storage has no room left for a write.
\<close>

definition partial_content :: response where
  "partial_content = \<lparr>status = 206, content_type = ''application/json'', body = ''[1,2''\<rparr>"

definition partial_net :: network where
  "partial_net u = Inr partial_content"

definition quota_exceeded :: cache_faults where
  "quota_exceeded =
     \<lparr>open_fault = None,
      put_fault = Some (DOMException ''QuotaExceededError'' ''Quota exceeded.'')\<rparr>"

subsection \<open>Patient records and the object store\<close>

text \<open>
  The values that a property of a JavaScript object may hold, as far as the worker tests
  them, and the test that \<open>||\<close> and \<open>if\<close> make on a value.
\<close>

datatype jsval = JUndefined | JNull | JBool bool | JNum int | JStr string

fun truthy :: "jsval \<Rightarrow> bool" where
  "truthy JUndefined = False"
| "truthy JNull = False"
| "truthy (JBool b) = b"
| "truthy (JNum n) = (n \<noteq> 0)"
| "truthy (JStr s) = (s \<noteq> [])"

definition js_or :: "jsval \<Rightarrow> jsval \<Rightarrow> jsval" where
  "js_or a b = (if truthy a then a else b)"

text \<open>
  A patient record: its property \<open>id\<close>, the identifier that the application gave it
  (\<open>patient_id\<close>), the time of its creation, the properties that the worker does not
  look at (\<open>details\<close>), and the three properties that the worker writes. \<open>JUndefined\<close>
  and \<open>None\<close> stand for an absent property.
\<close>

record patient =
  patient_id :: string
  timestamp :: string
  details :: string
  syncStatus :: jsval
  updatedAt :: "string option"
  syncedAt :: "string option"

text \<open>
  The object store \<open>patients\<close> has the key path \<open>id\<close>: it holds one record for each key,
  in the order of the keys, which for strings is the order of their characters.
\<close>

type_synonym object_store = "patient list"

definition store_get :: "string \<Rightarrow> object_store \<Rightarrow> patient option" where
  "store_get k db = find (\<lambda>q. patient_id q = k) db"

definition store_put :: "patient \<Rightarrow> object_store \<Rightarrow> object_store" where
  "store_put p db =
     (case store_get (patient_id p) db of
        Some old \<Rightarrow> map (\<lambda>q. if patient_id q = patient_id p then p else q) db
      | None \<Rightarrow> insort_key patient_id p db)"

text \<open>\<open>store.index('syncStatus').getAll(v)\<close>: the records with that value, in key order.\<close>

definition index_getAll :: "jsval \<Rightarrow> object_store \<Rightarrow> patient list" where
  "index_getAll v db = filter (\<lambda>q. syncStatus q = v) db"

text \<open>
  How the requests of one IndexedDB transaction turn out: whether the database opens
  (\<open>openDatabase\<close> resolves), whether the read request succeeds, whether the write
  request succeeds, and the error that a failing request reports. Every record has an
  identifier, as the application gives it one when it creates the record.
\<close>

record txn_io =
  open_ok :: bool
  get_ok :: bool
  put_ok :: bool
  request_error :: error

definition savePatient ::
  "txn_io \<Rightarrow> string \<Rightarrow> patient \<Rightarrow> object_store \<Rightarrow> error + string \<times> object_store" where
  "savePatient io now patient db =
     (if \<not> open_ok io then Inl (request_error io)
      else (let patient' = patient\<lparr>syncStatus := js_or (syncStatus patient) (JStr ''pending''),
                                   updatedAt := Some now\<rparr>
            in if put_ok io then Inr (patient_id patient', store_put patient' db)
               else Inl (request_error io)))"

definition getAllPatients :: "txn_io \<Rightarrow> object_store \<Rightarrow> error + patient list" where
  "getAllPatients io db =
     (if \<not> open_ok io then Inl (request_error io)
      else if get_ok io then Inr db
      else Inl (request_error io))"

definition getPendingPatients :: "txn_io \<Rightarrow> object_store \<Rightarrow> error + patient list" where
  "getPendingPatients io db =
     (if \<not> open_ok io then Inl (request_error io)
      else if get_ok io then Inr (index_getAll (JStr ''pending'') db)
      else Inl (request_error io))"

definition markAsSynced ::
  "txn_io \<Rightarrow> string \<Rightarrow> string \<Rightarrow> object_store \<Rightarrow> error + object_store" where
  "markAsSynced io now patientId db =
     (if \<not> open_ok io then Inl (request_error io)
      else if \<not> get_ok io then Inl (request_error io)
      else (case store_get patientId db of
              Some patient \<Rightarrow>
                if put_ok io
                then Inr (store_put (patient\<lparr>syncStatus := JStr ''synced'',
                                             syncedAt := Some now\<rparr>) db)
                else Inl (request_error io)
            | None \<Rightarrow> Inr db))"

subsection \<open>The worker and the reconciliation of pending records\<close>

datatype client_message = SYNC_COMPLETE nat | BACKUP_CREATED string

text \<open>
  The state of the worker: the cache storage, the object store, the URLs that it has
  passed to \<open>fetch\<close>, and the messages that it has posted to window clients (each with
  the client that it went to).
\<close>

record worker =
  caches :: cache_storage
  patients :: object_store
  fetched :: "string list"
  posted :: "(nat \<times> client_message) list"

text \<open>
  What happens around the worker while it handles one event: how its transactions turn
  out, by their number in the event, and what the clock shows, by the number of the
  reading in the event.
\<close>

record event_env =
  txn :: "nat \<Rightarrow> txn_io"
  clock :: "nat \<Rightarrow> string"

text \<open>
  The fetch event on the worker. Every strategy passes the request to \<open>fetch\<close> once,
  except that the revalidation of the cache-first strategy does not get to its fetch
  when the dynamic cache does not open.
\<close>

definition on_fetch ::
  "string \<Rightarrow> cache_faults \<Rightarrow> network \<Rightarrow> string \<Rightarrow> request \<Rightarrow> worker
     \<Rightarrow> (error + response) responded \<times> worker" where
  "on_fetch location_origin faults net now req w =
     (case fetch_listener location_origin faults net now req (caches w) of
        NotHandled \<Rightarrow> (NotHandled, w)
      | RespondWith result \<Rightarrow>
          (RespondWith (fst result),
           w\<lparr>caches := snd result,
             fetched :=
               (if classify location_origin req = Static \<and>
                   caches_match (url req) (caches w) \<noteq> None \<and> open_fault faults \<noteq> None
                then fetched w
                else fetched w @ [url req])\<rparr>))"

text \<open>
  The loop of \<open>syncPendingData\<close> over the pending records: the record of position \<open>i\<close> is
  marked in transaction \<open>i + 1\<close> of the event (the read of the pending records was
  transaction 0) at the clock reading \<open>i\<close>. The error of a mark ends the loop.
\<close>

fun sync_loop ::
  "event_env \<Rightarrow> nat \<Rightarrow> patient list \<Rightarrow> object_store \<Rightarrow> object_store \<times> error option" where
  "sync_loop env i [] db = (db, None)"
| "sync_loop env i (patient # rest) db =
     (case markAsSynced (txn env (Suc i)) (clock env i) (patient_id patient) db of
        Inl error \<Rightarrow> (db, Some error)
      | Inr db' \<Rightarrow> sync_loop env (Suc i) rest db')"

definition syncPendingData :: "event_env \<Rightarrow> nat list \<Rightarrow> worker \<Rightarrow> worker" where
  "syncPendingData env clients w =
     (case getPendingPatients (txn env 0) (patients w) of
        Inl error \<Rightarrow> w
      | Inr pendingPatients \<Rightarrow>
          if length pendingPatients = 0 then w
          else (case sync_loop env 0 pendingPatients (patients w) of
                  (db', Some error) \<Rightarrow> w\<lparr>patients := db'\<rparr>
                | (db', None) \<Rightarrow>
                    w\<lparr>patients := db',
                      posted := posted w @
                        map (\<lambda>client. (client, SYNC_COMPLETE (length pendingPatients)))
                          clients\<rparr>))"

subsection \<open>The message listener\<close>

text \<open>
  A message of the page: its \<open>type\<close> and its \<open>data\<close> property, which may be absent and
  whose \<open>patient\<close> property may be absent. A reply is one of the objects that the
  listener posts to the port of the message: \<open>{ success: true }\<close>, the same with \<open>data\<close>
  (a list of records, or the export with its time) or with \<open>cleared\<close>, and
  \<open>{ success: false, error }\<close>.
\<close>

datatype payload = Payload (payload_patient: "patient option")

record envelope =
  message_type :: string
  message_data :: "payload option"

datatype reply =
    Success
  | SuccessData "patient list"
  | SuccessCleared nat
  | SuccessExport "patient list" string
  | Failure string

text \<open>
  The loop of the \<open>CLEAR_PENDING_DATA\<close> case: each pending record is marked and put back,
  the record of position \<open>i\<close> at the clock reading \<open>i\<close>.
\<close>

fun clear_loop :: "event_env \<Rightarrow> nat \<Rightarrow> patient list \<Rightarrow> object_store \<Rightarrow> object_store" where
  "clear_loop env i [] db = db"
| "clear_loop env i (patient # rest) db =
     clear_loop env (Suc i) rest
       (store_put (patient\<lparr>syncStatus := JStr ''synced'', syncedAt := Some (clock env i)\<rparr>) db)"

text \<open>
  The body of the listener inside its \<open>try\<close>: the state and the replies posted, or the
  error thrown. In the \<open>CLEAR_PENDING_DATA\<close> case the reply is posted by the success
  callback of the read request, and the request has no error callback; a write that
  fails after the reply aborts the transaction, which undoes the writes.
\<close>

definition message_body ::
  "event_env \<Rightarrow> nat list \<Rightarrow> envelope \<Rightarrow> worker \<Rightarrow> error + worker \<times> reply list" where
  "message_body env clients msg w =
     (if message_type msg = ''SAVE_PATIENT'' then
        (case message_data msg of
           None \<Rightarrow> Inl (TypeError ''Cannot read properties of undefined (reading 'patient')'')
         | Some data \<Rightarrow>
             (case payload_patient data of
                None \<Rightarrow>
                  if \<not> open_ok (txn env 0) then Inl (request_error (txn env 0))
                  else Inl (TypeError
                         ''Cannot read properties of undefined (reading 'syncStatus')'')
              | Some patient \<Rightarrow>
                  (case savePatient (txn env 0) (clock env 0) patient (patients w) of
                     Inl error \<Rightarrow> Inl error
                   | Inr saved \<Rightarrow> Inr (w\<lparr>patients := snd saved\<rparr>, [Success]))))
      else if message_type msg = ''GET_PATIENTS'' then
        (case getAllPatients (txn env 0) (patients w) of
           Inl error \<Rightarrow> Inl error
         | Inr patients' \<Rightarrow> Inr (w, [SuccessData patients']))
      else if message_type msg = ''GET_PENDING_DATA'' then
        (case getPendingPatients (txn env 0) (patients w) of
           Inl error \<Rightarrow> Inl error
         | Inr pending \<Rightarrow> Inr (w, [SuccessData pending]))
      else if message_type msg = ''CLEAR_PENDING_DATA'' then
        (if \<not> open_ok (txn env 0) then Inl (request_error (txn env 0))
         else if \<not> get_ok (txn env 0) then Inr (w, [])
         else (let pendingPatients = index_getAll (JStr ''pending'') (patients w)
               in Inr (w\<lparr>patients :=
                           if put_ok (txn env 0)
                           then clear_loop env 0 pendingPatients (patients w)
                           else patients w\<rparr>,
                       [SuccessCleared (length pendingPatients)])))
      else if message_type msg = ''EXPORT_DATA'' then
        (case getAllPatients (txn env 0) (patients w) of
           Inl error \<Rightarrow> Inl error
         | Inr allData \<Rightarrow> Inr (w, [SuccessExport allData (clock env 0)]))
      else if message_type msg = ''PERFORM_SYNC'' then
        Inr (syncPendingData env clients w, [Success])
      else Inr (w, [Failure (''Unknown message type: '' @ message_type msg)]))"

text \<open>The listener: the \<open>catch\<close> answers with the message of the error.\<close>

definition on_message ::
  "event_env \<Rightarrow> nat list \<Rightarrow> envelope \<Rightarrow> worker \<Rightarrow> worker \<times> reply list" where
  "on_message env clients msg w =
     (case message_body env clients msg w of
        Inl error \<Rightarrow> (w, [Failure (message error)])
      | Inr done \<Rightarrow> done)"

subsection \<open>The bridge of the page (app.js)\<close>

text \<open>
  \<open>sendMessageToSW\<close> posts the message \<open>{ type, ...data }\<close> with a port for the reply
  and sets a timer. Its promise is settled by the first call of \<open>resolve\<close>; later calls
  change nothing. The caller gets \<open>null\<close> or the reply object. \<open>has_controller\<close> says that
  \<open>navigator.serviceWorker\<close> and its \<open>controller\<close> are there.
\<close>

datatype answer = Null | Answer reply

datatype 'a promise = Pending | Resolved 'a

definition resolve :: "'a \<Rightarrow> 'a promise \<Rightarrow> 'a promise" where
  "resolve v p = (case p of Pending \<Rightarrow> Resolved v | Resolved u \<Rightarrow> Resolved u)"

text \<open>
  What the event loop of the page delivers after the message went out: a message on
  \<open>port1\<close>, or the timer, with the delay that it was set with.
\<close>

datatype client_event = PortMessage reply | TimerFired nat

fun deliver :: "client_event \<Rightarrow> answer promise \<Rightarrow> answer promise" where
  "deliver (PortMessage data) p = resolve (Answer data) p"
| "deliver (TimerFired delay) p = resolve (Answer (Failure ''Timeout'')) p"

definition sendMessageToSW :: "bool \<Rightarrow> client_event list \<Rightarrow> answer promise" where
  "sendMessageToSW has_controller events =
     (if \<not> has_controller then Resolved Null
      else fold deliver events Pending)"

text \<open>
  The events of one call: the timer of 5000 ms fires once; the replies of the worker come
  before it, or after it, or not at all when the platform has stopped the worker.
\<close>

datatype delivery = InTime | Late | Lost

fun client_events :: "delivery \<Rightarrow> reply list \<Rightarrow> client_event list" where
  "client_events InTime replies = map PortMessage replies @ [TimerFired 5000]"
| "client_events Late replies = TimerFired 5000 # map PortMessage replies"
| "client_events Lost replies = [TimerFired 5000]"

definition bridge_call ::
  "bool \<Rightarrow> delivery \<Rightarrow> event_env \<Rightarrow> nat list \<Rightarrow> envelope \<Rightarrow> worker \<Rightarrow> answer promise" where
  "bridge_call has_controller d env clients msg w =
     sendMessageToSW has_controller (client_events d (snd (on_message env clients msg w)))"

subsection \<open>Example records and environments\<close>

definition all_ok :: txn_io where
  "all_ok = \<lparr>open_ok = True, get_ok = True, put_ok = True,
             request_error = DOMException ''UnknownError'' ''The request failed''\<rparr>"

definition new_patient :: "string \<Rightarrow> string \<Rightarrow> jsval \<Rightarrow> patient" where
  "new_patient k t s =
     \<lparr>patient_id = k, timestamp = t, details = ''name, age, vital signs'', syncStatus = s,
      updatedAt = None, syncedAt = None\<rparr>"

text \<open>
  For stating what the loops leave: the position of the first occurrence of an element in
  a list, and a transaction all of whose requests succeed.
\<close>

fun position :: "'a \<Rightarrow> 'a list \<Rightarrow> nat" where
  "position x [] = 0"
| "position x (y # ys) = (if x = y then 0 else Suc (position x ys))"

definition txn_ok :: "txn_io \<Rightarrow> bool" where
  "txn_ok io \<longleftrightarrow> open_ok io \<and> get_ok io \<and> put_ok io"

definition mark :: "string \<Rightarrow> patient \<Rightarrow> patient" where
  "mark t p = p\<lparr>syncStatus := JStr ''synced'', syncedAt := Some t\<rparr>"

text \<open>
  Three records saved while offline, in the order of their creation: \<open>PAT-2\<close>, \<open>PAT-3\<close>,
  \<open>PAT-10\<close>. The store keeps them in key order.
\<close>

definition pat2 :: patient where
  "pat2 = new_patient ''PAT-2'' ''2024-05-01T09:10:00.000Z'' (JStr ''pending'')"

definition pat3 :: patient where
  "pat3 = new_patient ''PAT-3'' ''2024-05-01T09:20:00.000Z'' (JStr ''pending'')"

definition pat10 :: patient where
  "pat10 = new_patient ''PAT-10'' ''2024-05-01T09:30:00.000Z'' (JStr ''pending'')"

definition three_pending :: object_store where
  "three_pending = store_put pat10 (store_put pat3 (store_put pat2 []))"

definition example_clock :: "nat \<Rightarrow> string" where
  "example_clock i = ''2024-05-01T10:00:0'' @ [char_of (48 + i)] @ ''.000Z''"

text \<open>An event in which every request succeeds, and events in which one fails.\<close>

definition calm :: event_env where
  "calm = \<lparr>txn = (\<lambda>i. all_ok), clock = example_clock\<rparr>"

definition second_mark_fails :: event_env where
  "second_mark_fails =
     \<lparr>txn = (\<lambda>i. if i = 2 then all_ok\<lparr>put_ok := False\<rparr> else all_ok), clock = example_clock\<rparr>"

definition read_fails :: event_env where
  "read_fails = \<lparr>txn = (\<lambda>i. all_ok\<lparr>get_ok := False\<rparr>), clock = example_clock\<rparr>"

definition open_fails :: event_env where
  "open_fails = \<lparr>txn = (\<lambda>i. all_ok\<lparr>open_ok := False\<rparr>), clock = example_clock\<rparr>"

definition write_fails :: event_env where
  "write_fails = \<lparr>txn = (\<lambda>i. all_ok\<lparr>put_ok := False\<rparr>), clock = example_clock\<rparr>"

definition worker_with :: "object_store \<Rightarrow> worker" where
  "worker_with db = \<lparr>caches = [], patients = db, fetched = [], posted = []\<rparr>"

definition pending_records :: "object_store \<Rightarrow> patient list" where
  "pending_records db = index_getAll (JStr ''pending'') db"

definition is_success :: "reply \<Rightarrow> bool" where
  "is_success r = (case r of Failure m \<Rightarrow> False | _ \<Rightarrow> True)"

definition get_patients_message :: envelope where
  "get_patients_message = \<lparr>message_type = ''GET_PATIENTS'', message_data = None\<rparr>"

definition clear_message :: envelope where
  "clear_message = \<lparr>message_type = ''CLEAR_PENDING_DATA'', message_data = None\<rparr>"

section \<open>Export and import of the patient list (app.js, version 1.0.0)\<close>

text \<open>
  The page keeps the records in the array \<open>this.patients\<close>, which it loads from and saves
  to the local storage as JSON; a record is here the JSON value that is saved.
  \<open>exportData\<close> writes the array and some metadata as JSON text, indented by two spaces,
  into a file that the browser downloads; \<open>now\<close> is what \<open>new Date().toISOString()\<close>
  gives. \<open>importData\<close> reads the text of a file that the user picks. The file keeps the
  text as it is.
\<close>

definition exportData :: "string \<Rightarrow> json \<Rightarrow> json list \<Rightarrow> string" where
  "exportData now currentUser patients' =
     JSON_stringify 2
       (JSON_object
          [(''patients'', JSON_array patients'),
           (''metadata'',
              JSON_object
                [(''exportedAt'', JSON_string now),
                 (''totalPatients'', JSON_number (int (length patients'))),
                 (''appVersion'', JSON_string ''1.0.0''),
                 (''user'', currentUser)])])"

text \<open>
  Reading the property \<open>patients\<close> or \<open>id\<close> of a value: on \<open>null\<close> it throws; an object
  gives the value that stands last under the name in its text, or \<open>undefined\<close> (here
  \<open>None\<close>); a string, a number, a boolean and an array have neither property.
\<close>

definition get_property :: "json \<Rightarrow> string \<Rightarrow> error + json option" where
  "get_property v name =
     (case v of
        JSON_null \<Rightarrow> Inl (TypeError ''Cannot read properties of null'')
      | JSON_object properties \<Rightarrow> Inr (map_of (rev properties) name)
      | _ \<Rightarrow> Inr None)"

text \<open>
  \<open>uniqueIds.has(p.id)\<close>: a set finds \<open>undefined\<close>, \<open>null\<close>, a boolean, a number and a
  string by their value; an array or an object it finds only if it is the very same one,
  which two values read from a text never are.
\<close>

definition found_by_value :: "json option \<Rightarrow> bool" where
  "found_by_value i =
     (case i of
        Some (JSON_array elements) \<Rightarrow> False
      | Some (JSON_object properties) \<Rightarrow> False
      | _ \<Rightarrow> True)"

text \<open>
  The filter of \<open>importData\<close> with its set \<open>uniqueIds\<close> of the identifiers seen. The read
  of \<open>p.id\<close> throws when \<open>p\<close> is \<open>null\<close>, which ends the filter.
\<close>

fun remove_duplicates :: "json option list \<Rightarrow> json list \<Rightarrow> error + json list" where
  "remove_duplicates uniqueIds [] = Inr []"
| "remove_duplicates uniqueIds (p # ps) =
     (case get_property p ''id'' of
        Inl error \<Rightarrow> Inl error
      | Inr i \<Rightarrow>
          if i \<in> set uniqueIds \<and> found_by_value i then remove_duplicates uniqueIds ps
          else (case remove_duplicates (i # uniqueIds) ps of
                  Inl error \<Rightarrow> Inl error
                | Inr kept \<Rightarrow> Inr (p # kept)))"

text \<open>
  \<open>importData\<close> on the text of the file and the array of the page: the array that it
  leaves and the notification that it shows. Whatever is thrown inside its \<open>try\<close> (by
  \<open>JSON.parse\<close>, by a property read, by the check of the format) ends in the
  notification of a failed import; the array has by then been replaced by the merged one
  if the throw came from the filter. Saving and rendering are left out.
\<close>

datatype notification = Imported nat | ImportFailed

definition importData :: "string \<Rightarrow> json list \<Rightarrow> json list \<times> notification" where
  "importData text patients' =
     (case JSON_parse text of
        None \<Rightarrow> (patients', ImportFailed)
      | Some data \<Rightarrow>
          (case get_property data ''patients'' of
             Inl error \<Rightarrow> (patients', ImportFailed)
           | Inr data_patients \<Rightarrow>
               (case data_patients of
                  Some (JSON_array imported) \<Rightarrow>
                    (case remove_duplicates [] (imported @ patients') of
                       Inl error \<Rightarrow> (imported @ patients', ImportFailed)
                     | Inr unique \<Rightarrow> (unique, Imported (length imported)))
                | _ \<Rightarrow> (patients', ImportFailed))))"

text \<open>Two records as the patient form makes them, and the user of the page.\<close>

definition patient_record :: "string \<Rightarrow> string \<Rightarrow> int \<Rightarrow> json" where
  "patient_record i n a =
     JSON_object
       [(''id'', JSON_string i),
        (''name'', JSON_string n),
        (''age'', JSON_number a),
        (''vitalSigns'', JSON_object [(''heartRate'', JSON_string ''Not recorded'')]),
        (''assignedTo'', JSON_null),
        (''syncStatus'', JSON_string ''pending'')]"

definition example_user :: json where
  "example_user = JSON_object [(''id'', JSON_string ''user-1''), (''role'', JSON_string ''paramedic'')]"

section \<open>Properties\<close>

subsection \<open>Cache storage\<close>

lemma fold_cache_delete: "fold cache_delete ks c = filter (\<lambda>e. fst e \<notin> set ks) c"
proof (induction ks arbitrary: c)
  case Nil
  show ?case by simp
next
  case (Cons k ks)
  have "fold cache_delete (k # ks) c = filter (\<lambda>e. fst e \<notin> set ks) (cache_delete k c)"
    by (simp add: Cons.IH)
  also have "\<dots> = filter (\<lambda>e. fst e \<notin> set (k # ks)) c"
    unfolding cache_delete_def filter_filter by (rule filter_cong) auto
  finally show ?case .
qed

lemma fold_caches_delete: "fold caches_delete ns cs = filter (\<lambda>e. fst e \<notin> set ns) cs"
proof (induction ns arbitrary: cs)
  case Nil
  show ?case by simp
next
  case (Cons n ns)
  have "fold caches_delete (n # ns) cs = filter (\<lambda>e. fst e \<notin> set ns) (caches_delete n cs)"
    by (simp add: Cons.IH)
  also have "\<dots> = filter (\<lambda>e. fst e \<notin> set (n # ns)) cs"
    unfolding caches_delete_def filter_filter by (rule filter_cong) auto
  finally show ?case .
qed

lemma filter_take_keys:
  "distinct (map fst c) \<Longrightarrow> filter (\<lambda>e. fst e \<notin> set (take m (map fst c))) c = drop m c"
proof (induction c arbitrary: m)
  case Nil
  show ?case by simp
next
  case (Cons e c)
  show ?case
  proof (cases m)
    case 0
    then show ?thesis by simp
  next
    case (Suc j)
    have ne: "fst x \<noteq> fst e" if "x \<in> set c" for x
      using Cons.prems that by (metis distinct.simps(2) image_eqI list.simps(9) set_map)
    have "filter (\<lambda>x. fst x \<noteq> fst e \<and> fst x \<notin> set (take j (map fst c))) c
          = filter (\<lambda>x. fst x \<notin> set (take j (map fst c))) c"
      by (rule filter_cong) (simp_all add: ne)
    with Cons Suc show ?thesis by simp
  qed
qed

lemma cache_named_store:
  "map_of cs name = Some c0 \<Longrightarrow> cache_named name (caches_store name c cs) = c"
  by (induction cs) (auto simp: cache_named_def caches_store_def)

lemma activate_eq: "activate cs = filter (\<lambda>e. \<not> is_old_cache (fst e)) cs"
  by (simp add: activate_def activate_deleted_def caches_keys_def fold_caches_delete)
     (rule filter_cong, auto)

lemma example_cache_distinct: "distinct (cache_keys (example_cache n))"
  by (auto simp: cache_keys_def example_cache_def example_request_def distinct_map comp_def
      inj_on_def dest: arg_cong [where f = length])

lemma length_example_cache: "length (example_cache n) = n"
  by (simp add: example_cache_def)

lemma cleanupCache_named:
  "cache_named DYNAMIC_CACHE (cleanupCache cs) =
     (let c = cache_named DYNAMIC_CACHE cs
      in if length c > 100 then fold cache_delete (take (length c - 100) (cache_keys c)) c
         else c)"
proof (cases "map_of cs DYNAMIC_CACHE")
  case None
  then show ?thesis
    by (simp add: cleanupCache_def caches_open_def cache_named_def cache_keys_def map_add_def)
next
  case (Some c)
  then show ?thesis
    by (simp add: cleanupCache_def caches_open_def cache_keys_def Let_def cache_named_store)
       (simp add: cache_named_def)
qed

lemma is_old_cache_iff:
  "is_old_cache n \<longleftrightarrow> n \<noteq> CACHE_NAME \<and> startsWith n ''upline-triage-''"
  by (auto simp: is_old_cache_def DYNAMIC_CACHE_def startsWith_def)

subsection \<open>The size bound of the dynamic cache\<close>

lemma length_filter_take_keys:
  "length (filter (\<lambda>e. fst e \<notin> set (take m (map fst c))) c) \<le> length c - m"
proof -
  let ?P = "\<lambda>e. fst e \<notin> set (take m (map fst c))"
  have "fst e \<in> set (take m (map fst c))" if "e \<in> set (take m c)" for e
  proof -
    have "fst e \<in> set (map fst (take m c))" using that by simp
    then show ?thesis by (simp only: take_map)
  qed
  then have "filter ?P (take m c) = []"
    by (simp add: filter_empty_conv)
  then have "filter ?P c = filter ?P (drop m c)"
    by (metis append_Nil append_take_drop_id filter_append)
  then have "length (filter ?P c) \<le> length (drop m c)"
    by (metis length_filter_le)
  then show ?thesis by simp
qed

text \<open>
  Claim C7. After a cleanup pass the dynamic cache holds at most 100 entries. The keys
  of a cache are distinct, as \<open>cache.put\<close> keeps them, and then the entries deleted are
  exactly the oldest insertions: what remains is the list of the last 100 entries in
  insertion order, and the old content is the deleted prefix followed by what remains.
\<close>

theorem cleanupCache_fifo_bound:
  "length (cache_named DYNAMIC_CACHE (cleanupCache cs)) \<le> 100 \<and>
   (distinct (cache_keys (cache_named DYNAMIC_CACHE cs)) \<longrightarrow>
      cache_named DYNAMIC_CACHE (cleanupCache cs) =
        drop (length (cache_named DYNAMIC_CACHE cs) - 100) (cache_named DYNAMIC_CACHE cs) \<and>
      cache_named DYNAMIC_CACHE cs =
        take (length (cache_named DYNAMIC_CACHE cs) - 100) (cache_named DYNAMIC_CACHE cs) @
        cache_named DYNAMIC_CACHE (cleanupCache cs))"
proof -
  let ?c = "cache_named DYNAMIC_CACHE cs"
  have bound: "length (cache_named DYNAMIC_CACHE (cleanupCache cs)) \<le> 100"
  proof (cases "length ?c > 100")
    case True
    have "length (filter (\<lambda>e. fst e \<notin> set (take (length ?c - 100) (map fst ?c))) ?c) \<le> 100"
      using length_filter_take_keys [of "length ?c - 100" ?c] True by linarith
    with True show ?thesis
      by (simp add: cleanupCache_named Let_def fold_cache_delete cache_keys_def)
  next
    case False
    then show ?thesis by (simp add: cleanupCache_named Let_def)
  qed
  have eq: "cache_named DYNAMIC_CACHE (cleanupCache cs) = drop (length ?c - 100) ?c"
    if "distinct (cache_keys ?c)"
    using that filter_take_keys [of ?c "length ?c - 100"]
    by (simp add: cleanupCache_named Let_def fold_cache_delete cache_keys_def)
  show ?thesis using bound eq by simp
qed

theorem cleanupCache_fifo_bound_witness:
  "distinct (cache_keys (cache_named DYNAMIC_CACHE [(DYNAMIC_CACHE, example_cache 103)])) \<and>
   length (cache_named DYNAMIC_CACHE (cleanupCache [(DYNAMIC_CACHE, example_cache 103)])) = 100 \<and>
   cache_named DYNAMIC_CACHE (cleanupCache [(DYNAMIC_CACHE, example_cache 103)]) =
     drop 3 (example_cache 103)"
proof -
  have c: "cache_named DYNAMIC_CACHE [(DYNAMIC_CACHE, example_cache 103)] = example_cache 103"
    by (simp add: cache_named_def)
  have d: "distinct (cache_keys (cache_named DYNAMIC_CACHE [(DYNAMIC_CACHE, example_cache 103)]))"
    unfolding c by (rule example_cache_distinct)
  show ?thesis
    using d cleanupCache_fifo_bound [of "[(DYNAMIC_CACHE, example_cache 103)]"]
    unfolding c by (simp add: length_example_cache)
qed

subsection \<open>Activation\<close>

text \<open>
  What the activate handler does on every cache storage: it deletes the caches whose
  name starts with the shell prefix \<open>upline-triage-\<close> and is not the current shell name,
  and no other; the test against the name of the dynamic cache never decides. A second
  run finds nothing to delete.
\<close>

lemma activate_idempotent:
  "caches_keys (activate cs) =
     filter (\<lambda>n. n = CACHE_NAME \<or> \<not> startsWith n ''upline-triage-'') (caches_keys cs) \<and>
   activate_deleted (activate cs) = [] \<and>
   activate (activate cs) = activate cs"
proof -
  have k: "caches_keys (activate cs) = filter (\<lambda>n. \<not> is_old_cache n) (caches_keys cs)"
    by (simp add: activate_eq caches_keys_def filter_map comp_def)
  have d: "activate_deleted (activate cs) = []"
    unfolding activate_deleted_def k by (simp add: filter_empty_conv)
  have "activate (activate cs) = activate cs"
    by (simp add: activate_def [of "activate cs"] d)
  with k d show ?thesis by (simp add: is_old_cache_iff de_Morgan_conj)
qed

lemma stale_entry_shadows:
  "caches_match ''/styles.css'' (activate stale_caches) =
     Some \<lparr>status = 200, content_type = ''text/css'', body = ''old''\<rparr> \<and>
   caches_match ''/styles.css'' (activate_spec stale_caches) =
     Some \<lparr>status = 200, content_type = ''text/css'', body = ''new''\<rparr>"
  by (simp add: activate_eq stale_caches_def is_old_cache_def startsWith_def CACHE_NAME_def
      CACHE_VERSION_def DYNAMIC_CACHE_def activate_spec_def cache_match_def)

text \<open>
  Claim C4. The activation cleanup is to delete every cache that is neither the current
  shell generation nor the current dynamic generation, so that after it exactly these two
  are left. On the storage that the previous release leaves behind, the handler deletes
  the old shell \<open>upline-triage-v2\<close> and keeps the old dynamic cache \<open>upline-dynamic-v1\<close>,
  which is neither current generation: three caches are left, not two, and a second run
  changes nothing about it.
\<close>

theorem activate_keeps_old_dynamic:
  "caches_keys old_caches =
     [''upline-triage-v2'', ''upline-dynamic-v1'', CACHE_NAME, DYNAMIC_CACHE] \<and>
   activate_deleted old_caches = [''upline-triage-v2''] \<and>
   caches_keys (activate old_caches) = [''upline-dynamic-v1'', CACHE_NAME, DYNAMIC_CACHE] \<and>
   ''upline-dynamic-v1'' \<noteq> CACHE_NAME \<and> ''upline-dynamic-v1'' \<noteq> DYNAMIC_CACHE \<and>
   caches_keys (activate (activate old_caches)) =
     [''upline-dynamic-v1'', CACHE_NAME, DYNAMIC_CACHE] \<and>
   caches_keys (activate_spec old_caches) = [CACHE_NAME, DYNAMIC_CACHE]"
  by (simp add: activate_eq old_caches_def is_old_cache_def startsWith_def CACHE_NAME_def
      CACHE_VERSION_def DYNAMIC_CACHE_def caches_keys_def activate_spec_def activate_deleted_def)

subsection \<open>Installation\<close>

lemma install_always_fulfilled: "installed (install net cs)"
  by (simp add: install_def installed_def then_p_def catch_p_def Let_def
      split: prod.splits sum.splits)

lemma install_v2_fails: "\<not> installed (install_v2 net_missing_icon [])"
  by (simp add: install_v2_def installed_def caches_open_def cache_addAll_def urlsToCache_v2_def
      net_missing_icon_def ok_def asset_response_def then_p_def)

text \<open>
  Claim C3. Installation is meant to be all or nothing: when one asset of the manifest
  cannot be fetched, the install event must fail and the previous generation must go on
  serving. On a server where \<open>/offline.html\<close> is 404 the handler's \<open>catch\<close> turns the
  rejection of \<open>addAll\<close> into a fulfilled promise: the install event completes, the new
  shell cache exists and is empty, and the next activation deletes the shell of the
  previous release.
\<close>

theorem install_swallows_failure:
  "installed (install net_missing_offline previous_release) \<and>
   waitUntil (install net_missing_offline previous_release) = Inr LoggedInstallFailed \<and>
   cache_named CACHE_NAME (caches_after (install net_missing_offline previous_release)) = [] \<and>
   caches_keys (activate (caches_after (install net_missing_offline previous_release))) =
     [''upline-dynamic-v1'', CACHE_NAME]"
  by (simp add: install_def installed_def caches_open_def previous_release_def CACHE_NAME_def
      CACHE_VERSION_def cache_addAll_def urlsToCache_def net_missing_offline_def ok_def
      asset_response_def then_p_def catch_p_def cache_named_def activate_eq is_old_cache_def
      startsWith_def DYNAMIC_CACHE_def caches_keys_def)

subsection \<open>Writing and reading JSON\<close>

text \<open>The parser reads the tokens of a value back as the value.\<close>

lemma toks_not_Nil: "toks v \<noteq> []"
  by (cases v) simp_all

lemma hd_toks:
  "hd (toks v) \<noteq> RBracket" "hd (toks v) \<noteq> RBrace" "hd (toks v) \<noteq> Comma" "hd (toks v) \<noteq> Colon"
  by (cases v; simp)+

lemma parse_value_scalar:
  "parse_value (Suc f) (TNull # rest) = Some (JSON_null, rest)"
  "parse_value (Suc f) (TTrue # rest) = Some (JSON_bool True, rest)"
  "parse_value (Suc f) (TFalse # rest) = Some (JSON_bool False, rest)"
  "parse_value (Suc f) (TNumber n # rest) = Some (JSON_number n, rest)"
  "parse_value (Suc f) (TString s # rest) = Some (JSON_string s, rest)"
  by simp_all

lemma parse_elements_join:
  assumes ih: "\<And>v f rest. v \<in> set vs \<Longrightarrow> length (toks v) \<le> f \<Longrightarrow>
                 parse_value f (toks v @ rest) = Some (v, rest)"
    and "vs \<noteq> []"
    and "length (join [Comma] (map toks vs)) < g"
  shows "parse_elements g (join [Comma] (map toks vs) @ RBracket # rest) = Some (vs, rest)"
  using assms
proof (induction vs arbitrary: g)
  case Nil
  then show ?case by simp
next
  case (Cons v vs)
  from Cons.prems(3) obtain f where g: "g = Suc f" by (cases g) auto
  show ?case
  proof (cases vs)
    case Nil
    have "parse_value f (toks v @ RBracket # rest) = Some (v, RBracket # rest)"
      using Cons.prems(3) Nil g by (intro Cons.prems(1)) auto
    then show ?thesis using Nil g by simp
  next
    case (Cons w ws)
    have j: "join [Comma] (map toks (v # vs)) = toks v @ Comma # join [Comma] (map toks vs)"
      using Cons by simp
    have "parse_value f (toks v @ Comma # join [Comma] (map toks vs) @ RBracket # rest)
            = Some (v, Comma # join [Comma] (map toks vs) @ RBracket # rest)"
      using Cons.prems(3) g unfolding j by (intro Cons.prems(1)) auto
    moreover have "parse_elements f (join [Comma] (map toks vs) @ RBracket # rest) = Some (vs, rest)"
      using Cons.prems(1,3) Cons g unfolding j
      by (intro Cons.IH) (auto simp del: join.simps)
    ultimately show ?thesis using g unfolding j by simp
  qed
qed

lemma parse_properties_join:
  assumes ih: "\<And>k v f rest. (k, v) \<in> set ps \<Longrightarrow> length (toks v) \<le> f \<Longrightarrow>
                 parse_value f (toks v @ rest) = Some (v, rest)"
    and "ps \<noteq> []"
    and "length (join [Comma] (map (\<lambda>p. TString (fst p) # Colon # toks (snd p)) ps)) < g"
  shows "parse_properties g
           (join [Comma] (map (\<lambda>p. TString (fst p) # Colon # toks (snd p)) ps) @ RBrace # rest)
         = Some (ps, rest)"
  using assms
proof (induction ps arbitrary: g)
  case Nil
  then show ?case by simp
next
  case (Cons p ps)
  let ?m = "\<lambda>p. TString (fst p) # Colon # toks (snd p)"
  obtain k v where p: "p = (k, v)" by (cases p)
  from Cons.prems(3) obtain f where g: "g = Suc f" by (cases g) auto
  show ?case
  proof (cases ps)
    case Nil
    have "parse_value f (toks v @ RBrace # rest) = Some (v, RBrace # rest)"
      using Cons.prems(3) Nil g p by (intro Cons.prems(1) [of k]) auto
    then show ?thesis using Nil g p by simp
  next
    case (Cons q qs)
    have j: "join [Comma] (map ?m (p # ps)) = TString k # Colon # toks v @ Comma # join [Comma] (map ?m ps)"
      using Cons p by simp
    have "parse_value f (toks v @ Comma # join [Comma] (map ?m ps) @ RBrace # rest)
            = Some (v, Comma # join [Comma] (map ?m ps) @ RBrace # rest)"
      using Cons.prems(3) g p unfolding j by (intro Cons.prems(1) [of k]) auto
    moreover have "parse_properties f (join [Comma] (map ?m ps) @ RBrace # rest) = Some (ps, rest)"
      using Cons.prems(1,3) Cons g unfolding j
      by (intro Cons.IH) (auto simp del: join.simps)
    ultimately show ?thesis using g p unfolding j by simp
  qed
qed

lemma parse_value_toks:
  "length (toks v) \<le> f \<Longrightarrow> parse_value f (toks v @ rest) = Some (v, rest)"
proof (induction v arbitrary: f rest)
  case JSON_null
  then show ?case by (cases f) simp_all
next
  case (JSON_bool b)
  then show ?case by (cases f) simp_all
next
  case (JSON_number n)
  then show ?case by (cases f) simp_all
next
  case (JSON_string s)
  then show ?case by (cases f) simp_all
next
  case (JSON_array vs)
  from JSON_array.prems obtain g where f: "f = Suc g" by (cases f) auto
  show ?case
  proof (cases vs)
    case Nil
    then show ?thesis using f by simp
  next
    case (Cons w ws)
    let ?j = "join [Comma] (map toks vs)"
    have e: "parse_elements g (?j @ RBracket # rest) = Some (vs, rest)"
      using JSON_array.prems f Cons
      by (intro parse_elements_join JSON_array.IH) (auto simp del: join.simps)
    have "?j \<noteq> []" using Cons toks_not_Nil [of w] by (cases ws) auto
    moreover have "hd ?j = hd (toks w)"
      using Cons toks_not_Nil [of w] by (cases ws) auto
    ultimately obtain t ts where j: "?j = t # ts" and t: "t \<noteq> RBracket"
      using hd_toks(1) [of w] by (cases ?j) auto
    show ?thesis using e f unfolding toks.simps j by (simp add: t)
  qed
next
  case (JSON_object ps)
  from JSON_object.prems obtain g where f: "f = Suc g" by (cases f) auto
  let ?m = "\<lambda>p. TString (fst p) # Colon # toks (snd p)"
  have m: "map (\<lambda>p. TString (fst p) # Colon # snd p) (map (map_prod id toks) ps) = map ?m ps"
    by simp
  show ?case
  proof (cases ps)
    case Nil
    then show ?thesis using f by simp
  next
    case (Cons q qs)
    let ?j = "join [Comma] (map ?m ps)"
    have ih: "parse_value f' (toks v @ rest') = Some (v, rest')"
      if "(k, v) \<in> set ps" "length (toks v) \<le> f'" for k v f' rest'
      using that by (intro JSON_object.IH [of "(k, v)" v]) auto
    have e: "parse_properties g (?j @ RBrace # rest) = Some (ps, rest)"
      using JSON_object.prems f Cons unfolding toks.simps m
      by (intro parse_properties_join ih) (auto simp del: join.simps)
    obtain ts where j: "?j = TString (fst q) # ts"
      using Cons by (cases qs) auto
    show ?thesis using e f unfolding toks.simps m j by simp
  qed
qed

text \<open>The lexer reads the text of a number, of a string and of a whole value as its tokens.\<close>

lemma lex_whitespace: "whitespace c \<Longrightarrow> lex Outside (c # rest) = lex Outside rest"
  by simp

lemma lex_spaces: "lex Outside (spaces n @ rest) = lex Outside rest"
  by (induction n) (simp_all add: spaces_def whitespace_def)

lemma lex_newline: "lex Outside (CHR 0x0A # rest) = lex Outside rest"
  by (simp add: whitespace_def)

lemma lex_punctuation:
  "lex Outside (CHR ''['' # rest) = map_option ((#) LBracket) (lex Outside rest)"
  "lex Outside (CHR '']'' # rest) = map_option ((#) RBracket) (lex Outside rest)"
  "lex Outside (CHR ''{'' # rest) = map_option ((#) LBrace) (lex Outside rest)"
  "lex Outside (CHR ''}'' # rest) = map_option ((#) RBrace) (lex Outside rest)"
  "lex Outside (CHR '':'' # rest) = map_option ((#) Colon) (lex Outside rest)"
  "lex Outside (CHR '','' # rest) = map_option ((#) Comma) (lex Outside rest)"
  by (simp_all add: whitespace_def punctuation_def)

lemma lex_literals:
  "lex Outside (''null'' @ rest) = map_option ((#) TNull) (lex Outside rest)"
  "lex Outside (''true'' @ rest) = map_option ((#) TTrue) (lex Outside rest)"
  "lex Outside (''false'' @ rest) = map_option ((#) TFalse) (lex Outside rest)"
  by (simp_all add: whitespace_def punctuation_def digit_value_def literal_start_def)

lemma digit_value_char: "d < 10 \<Longrightarrow> digit_value (char_of (48 + d)) = Some d"
  by (simp add: digit_value_def of_char_of [where ?'a = nat] )

lemma whitespace_not_digit: "whitespace c \<Longrightarrow> digit_value c = None"
  by (auto simp: whitespace_def digit_value_def)

lemma punctuation_not_digit: "punctuation c = Some t \<Longrightarrow> digit_value c = None"
  by (auto simp: punctuation_def digit_value_def split: if_splits)

lemma punctuation_not_whitespace: "punctuation c = Some t \<Longrightarrow> \<not> whitespace c"
  by (auto simp: punctuation_def whitespace_def split: if_splits)

lemma digit_not_other:
  assumes "digit_value c = Some d"
  shows "\<not> whitespace c" "punctuation c = None" "c \<noteq> CHR 0x22" "c \<noteq> CHR ''-''"
proof -
  show "\<not> whitespace c" using assms whitespace_not_digit by force
  show "punctuation c = None" using assms punctuation_not_digit by (cases "punctuation c") force+
  show "c \<noteq> CHR 0x22" "c \<noteq> CHR ''-''" using assms by (auto simp: digit_value_def)
qed

lemmas not_digit_first = digit_not_other [OF digit_value_char]

lemma lex_digits_Outside:
  "lex Outside (digits n @ rest) = lex (InNumber False (n = 0) n) rest"
proof (induction n arbitrary: rest rule: digits.induct)
  case (1 n)
  show ?case
  proof (cases "n < 10")
    case True
    then show ?thesis
      by (simp add: digit_value_char not_digit_first del: digits.simps add: digits.simps [of n])
  next
    case False
    have "digits n @ rest = digits (n div 10) @ char_of (48 + n mod 10) # rest"
      using False by (simp add: digits.simps [of n])
    then have "lex Outside (digits n @ rest) =
                 lex (InNumber False (n div 10 = 0) (n div 10)) (char_of (48 + n mod 10) # rest)"
      using 1 [OF False] by simp
    also have "\<dots> = lex (InNumber False False (10 * (n div 10) + n mod 10)) rest"
      using False by (simp add: digit_value_char div_eq_0_iff)
    finally show ?thesis using False by simp
  qed
qed

lemma lex_digits_InMinus:
  "lex InMinus (digits n @ rest) = lex (InNumber True (n = 0) n) rest"
proof (induction n arbitrary: rest rule: digits.induct)
  case (1 n)
  show ?case
  proof (cases "n < 10")
    case True
    then show ?thesis
      by (simp add: digit_value_char del: digits.simps add: digits.simps [of n])
  next
    case False
    have "digits n @ rest = digits (n div 10) @ char_of (48 + n mod 10) # rest"
      using False by (simp add: digits.simps [of n])
    then have "lex InMinus (digits n @ rest) =
                 lex (InNumber True (n div 10 = 0) (n div 10)) (char_of (48 + n mod 10) # rest)"
      using 1 [OF False] by simp
    also have "\<dots> = lex (InNumber True False (10 * (n div 10) + n mod 10)) rest"
      using False by (simp add: digit_value_char div_eq_0_iff)
    finally show ?thesis using False by simp
  qed
qed

lemma lex_InNumber_end:
  "delimited rest \<Longrightarrow>
   lex (InNumber negative zero v) rest =
     map_option ((#) (TNumber (signed negative v))) (lex Outside rest)"
proof (cases rest)
  case Nil
  then show ?thesis by simp
next
  case (Cons c cs)
  assume "delimited rest"
  then consider "whitespace c" | t where "punctuation c = Some t" "\<not> whitespace c"
    using Cons by (auto simp: delimited_def dest: punctuation_not_whitespace)
  then show ?thesis
  proof cases
    case 1
    then show ?thesis using Cons by (simp add: whitespace_not_digit)
  next
    case 2
    then show ?thesis
      using Cons by (simp add: punctuation_not_digit option.map_comp comp_def)
  qed
qed

lemma lex_number:
  "delimited rest \<Longrightarrow>
   lex Outside (number_text n @ rest) = map_option ((#) (TNumber n)) (lex Outside rest)"
proof (cases "n < 0")
  case True
  assume d: "delimited rest"
  have "lex Outside (number_text n @ rest) = lex InMinus (digits (nat (- n)) @ rest)"
    using True
    by (simp add: number_text_def whitespace_def punctuation_def)
  also have "\<dots> = map_option ((#) (TNumber (signed True (nat (- n))))) (lex Outside rest)"
    by (simp only: lex_digits_InMinus lex_InNumber_end [OF d])
  finally show ?thesis using True by (simp add: signed_def)
next
  case False
  assume d: "delimited rest"
  have "lex Outside (number_text n @ rest) = lex Outside (digits (nat n) @ rest)"
    using False by (simp add: number_text_def)
  also have "\<dots> = map_option ((#) (TNumber (signed False (nat n)))) (lex Outside rest)"
    by (simp only: lex_digits_Outside lex_InNumber_end [OF d])
  finally show ?thesis using False by (simp add: signed_def)
qed

lemma hex_value_digit: "k < 16 \<Longrightarrow> hex_value (hex_digit k) = Some k"
  by (auto simp: hex_value_def hex_digit_def Let_def of_char_of [where ?'a = nat])

lemma lex_control:
  assumes "(of_char c :: nat) < 32"
  shows "lex (InString acc)
           ([CHR 0x5C, CHR ''u'', CHR ''0'', CHR ''0'',
             hex_digit (of_char c div 16), hex_digit (of_char c mod 16)] @ rest)
         = lex (InString (c # acc)) rest"
proof -
  let ?n = "of_char c :: nat"
  have h: "hex_value (hex_digit (?n div 16)) = Some (?n div 16)"
    "hex_value (hex_digit (?n mod 16)) = Some (?n mod 16)"
    using assms by (simp_all add: hex_value_digit)
  have z: "hex_value (CHR ''0'') = Some 0"
    by (simp add: hex_value_def)
  have c: "char_of (?n div 16 * 16 + ?n mod 16) = c"
    by simp
  show ?thesis
    using assms by (simp add: h z Let_def unescape_def c mult.commute)
qed

lemma lex_escape_char:
  "lex (InString acc) (escape_char c @ rest) = lex (InString (c # acc)) rest"
proof (cases "c = CHR 0x22 \<or> c = CHR 0x5C \<or> c = CHR 0x08 \<or> c = CHR 0x0C \<or> c = CHR 0x0A \<or>
              c = CHR 0x0D \<or> c = CHR 0x09")
  case True
  then show ?thesis
    by (auto simp: escape_char_def unescape_def)
next
  case False
  show ?thesis
  proof (cases "(of_char c :: nat) < 32")
    case True
    with False lex_control [OF True, of acc rest] show ?thesis
      by (simp add: escape_char_def)
  next
    case ge: False
    with False show ?thesis by (simp add: escape_char_def)
  qed
qed

lemma lex_string_body:
  "lex (InString acc) (concat (map escape_char s) @ CHR 0x22 # rest) =
     map_option ((#) (TString (rev acc @ s))) (lex Outside rest)"
proof (induction s arbitrary: acc)
  case Nil
  show ?case by simp
next
  case (Cons c s)
  have "lex (InString acc) (concat (map escape_char (c # s)) @ CHR 0x22 # rest) =
          lex (InString (c # acc)) (concat (map escape_char s) @ CHR 0x22 # rest)"
    using lex_escape_char [of acc c] by simp
  then show ?case by (simp add: Cons.IH)
qed

lemma lex_quote:
  "lex Outside (quote s @ rest) = map_option ((#) (TString s)) (lex Outside rest)"
  using lex_string_body [of "[]" s rest]
  by (simp add: quote_def whitespace_def punctuation_def)

lemma delimited_simps:
  "delimited []" "delimited (CHR '','' # rest)" "delimited (CHR '']'' # rest)"
  "delimited (CHR ''}'' # rest)" "delimited (CHR 0x0A # rest)"
  by (simp_all add: delimited_def whitespace_def punctuation_def)

lemma append_fun: "(@) [] = (\<lambda>ts. ts)" "(@) (x # xs) = (\<lambda>ts. x # (xs @ ts))"
  by auto

lemma lex_brackets:
  "lex Outside (''['' @ rest) = map_option ((#) LBracket) (lex Outside rest)"
  "lex Outside ('']'' @ rest) = map_option ((#) RBracket) (lex Outside rest)"
  "lex Outside (''{'' @ rest) = map_option ((#) LBrace) (lex Outside rest)"
  "lex Outside (''}'' @ rest) = map_option ((#) RBrace) (lex Outside rest)"
  by (simp_all only: append_Cons append_Nil lex_punctuation)

lemma delimited_closing: "delimited ('']'' @ rest)" "delimited (''}'' @ rest)"
  by (simp_all add: delimited_simps)

lemma lex_join:
  assumes ih: "\<And>x rest. x \<in> set xs \<Longrightarrow> delimited rest \<Longrightarrow>
                 lex Outside (text x @ rest) = map_option ((@) (tokens x)) (lex Outside rest)"
    and ws: "\<And>rest. lex Outside (w @ rest) = lex Outside rest"
    and "xs \<noteq> []" "delimited rest"
  shows "lex Outside (join (CHR '','' # w) (map text xs) @ rest) =
           map_option ((@) (join [Comma] (map tokens xs))) (lex Outside rest)"
  using assms(1,3)
proof (induction xs)
  case Nil
  then show ?case by simp
next
  case (Cons x xs)
  show ?case
  proof (cases xs)
    case Nil
    then show ?thesis using Cons.prems(1) [of x rest] assms(4) by simp
  next
    case (Cons y ys)
    let ?tail = "join (CHR '','' # w) (map text xs) @ rest"
    have "lex Outside (join (CHR '','' # w) (map text (x # xs)) @ rest) =
            lex Outside (text x @ CHR '','' # w @ ?tail)"
      using Cons by simp
    also have "\<dots> = map_option ((@) (tokens x)) (lex Outside (CHR '','' # w @ ?tail))"
      by (rule Cons.prems(1)) (simp_all add: delimited_simps)
    also have "lex Outside (CHR '','' # w @ ?tail) = map_option ((#) Comma) (lex Outside ?tail)"
      by (simp only: lex_punctuation ws)
    also have "lex Outside ?tail = map_option ((@) (join [Comma] (map tokens xs))) (lex Outside rest)"
      using Cons.prems(1) Cons by (intro Cons.IH) auto
    finally show ?thesis
      using Cons by (simp add: option.map_comp comp_def)
  qed
qed

lemma lex_wrap:
  assumes ih: "\<And>x rest. x \<in> set xs \<Longrightarrow> delimited rest \<Longrightarrow>
                 lex Outside (text x @ rest) = map_option ((@) (tokens x)) (lex Outside rest)"
    and o: "\<And>rest. lex Outside (opening @ rest) = map_option ((#) l) (lex Outside rest)"
    and c: "\<And>rest. lex Outside (closing @ rest) = map_option ((#) r) (lex Outside rest)"
    and d: "\<And>rest. delimited (closing @ rest)"
  shows "lex Outside (wrap gap indent opening closing (map text xs) @ rest) =
           map_option ((@) (l # join [Comma] (map tokens xs) @ [r])) (lex Outside rest)"
proof (cases "xs = []")
  case True
  then show ?thesis by (simp add: wrap_def o c option.map_comp comp_def append_fun)
next
  case False
  show ?thesis
  proof (cases "gap = 0")
    case True
    have "lex Outside (join (CHR '','' # []) (map text xs) @ closing @ rest) =
            map_option ((@) (join [Comma] (map tokens xs))) (lex Outside (closing @ rest))"
      by (rule lex_join [OF ih _ False d]) simp_all
    then show ?thesis
      using True False by (simp add: wrap_def o c option.map_comp comp_def append_fun)
  next
    case g: False
    let ?w = "CHR 0x0A # spaces (indent + gap)"
    have ws: "lex Outside (?w @ rest') = lex Outside rest'" for rest'
      by (simp only: append_Cons lex_newline lex_spaces)
    have "lex Outside (join (CHR '','' # ?w) (map text xs) @ CHR 0x0A # spaces indent @ closing @ rest) =
            map_option ((@) (join [Comma] (map tokens xs)))
              (lex Outside (CHR 0x0A # spaces indent @ closing @ rest))"
      by (rule lex_join [OF ih ws False]) (simp_all add: delimited_simps)
    also have "lex Outside (CHR 0x0A # spaces indent @ closing @ rest) =
                 map_option ((#) r) (lex Outside rest)"
      by (simp only: lex_newline lex_spaces c)
    finally show ?thesis
      using g False
      by (simp add: wrap_def o ws [simplified] lex_newline lex_spaces option.map_comp comp_def
          append_fun del: lex.simps)
  qed
qed

lemma lex_serialize:
  "delimited rest \<Longrightarrow>
   lex Outside (serialize gap v indent @ rest) = map_option ((@) (toks v)) (lex Outside rest)"
proof (induction v arbitrary: indent rest)
  case JSON_null
  show ?case using lex_literals(1) by simp
next
  case (JSON_bool b)
  show ?case using lex_literals(2,3) by (cases b) simp_all
next
  case (JSON_number n)
  then show ?case by (simp add: lex_number)
next
  case (JSON_string s)
  show ?case by (simp add: lex_quote)
next
  case (JSON_array vs)
  have "lex Outside (wrap gap indent ''['' '']'' (map (\<lambda>v. serialize gap v (indent + gap)) vs) @ rest) =
          map_option ((@) (LBracket # join [Comma] (map toks vs) @ [RBracket])) (lex Outside rest)"
    by (rule lex_wrap [OF JSON_array.IH lex_brackets(1) lex_brackets(2) delimited_closing(1)])
  then show ?case by (simp add: append_fun)
next
  case (JSON_object ps)
  define sp where "sp = (if gap = 0 then [] else '' '')"
  let ?text = "\<lambda>p. quote (fst p) @ '':'' @ sp @ serialize gap (snd p) (indent + gap)"
  let ?tokens = "\<lambda>p. TString (fst p) # Colon # toks (snd p)"
  have sp: "lex Outside (sp @ r) = lex Outside r" for r
    by (simp add: sp_def whitespace_def)
  have ih: "lex Outside (?text p @ r) = map_option ((@) (?tokens p)) (lex Outside r)"
    if "p \<in> set ps" "delimited r" for p r
  proof -
    obtain k v where p: "p = (k, v)" by (cases p)
    let ?s = "serialize gap v (indent + gap)"
    have "lex Outside (?text p @ r) = lex Outside (quote k @ CHR '':'' # sp @ ?s @ r)"
      using p by simp
    also have "\<dots> = map_option ((#) (TString k)) (lex Outside (CHR '':'' # sp @ ?s @ r))"
      by (rule lex_quote)
    also have "lex Outside (CHR '':'' # sp @ ?s @ r) = map_option ((#) Colon) (lex Outside (?s @ r))"
      by (simp only: lex_punctuation sp)
    also have "lex Outside (?s @ r) = map_option ((@) (toks v)) (lex Outside r)"
      using that p by (intro JSON_object.IH [of "(k, v)" v]) auto
    finally show ?thesis
      using p by (simp add: option.map_comp comp_def append_fun del: lex.simps)
  qed
  have "lex Outside (wrap gap indent ''{'' ''}'' (map ?text ps) @ rest) =
          map_option ((@) (LBrace # join [Comma] (map ?tokens ps) @ [RBrace])) (lex Outside rest)"
    by (rule lex_wrap [OF ih lex_brackets(3) lex_brackets(4) delimited_closing(2)])
  then show ?case by (simp add: comp_def append_fun sp_def)
qed

text \<open>\<open>JSON.parse\<close> reads what \<open>JSON.stringify\<close> has written as the value that was written.\<close>

theorem JSON_parse_stringify: "JSON_parse (JSON_stringify space v) = Some v"
proof -
  have "lex Outside (JSON_stringify space v) = Some (toks v)"
    using lex_serialize [of "[]" "min 10 space" v 0]
    by (simp add: JSON_stringify_def delimited_simps)
  moreover have "parse_value (length (toks v)) (toks v) = Some (v, [])"
    using parse_value_toks [of v "length (toks v)" "[]"] by simp
  ultimately show ?thesis by (simp add: JSON_parse_def)
qed

text \<open>Some texts and what the two functions make of them.\<close>

lemma JSON_examples:
  \<open>JSON_parse (''{"a": [1, -20, true, null], "b": "x'' @ [CHR 0x5C] @ ''u0041'' @ [CHR 0x5C] @
       ''"y'' @ [CHR 0x5C] @ ''n"}'') =
     Some (JSON_object
             [(''a'', JSON_array [JSON_number 1, JSON_number (- 20), JSON_bool True, JSON_null]),
              (''b'', JSON_string (''xA"y'' @ [CHR 0x0A]))]) \<and>
   JSON_parse ''[1,]'' = None \<and>
   JSON_parse ''01'' = None \<and>
   JSON_parse ''{"a":1} x'' = None \<and>
   JSON_stringify 0 (JSON_string [CHR 0x01, CHR 0x0A, CHR 0x22]) =
     [CHR 0x22, CHR 0x5C] @ ''u0001'' @ [CHR 0x5C] @ ''n'' @ [CHR 0x5C, CHR 0x22, CHR 0x22] \<and>
   JSON_stringify 0 (JSON_array [JSON_number (- 305), JSON_object [], JSON_array []]) =
     ''[-305,{},[]]''\<close>
  by code_simp

subsection \<open>The try block of the strategies\<close>

lemma fetch_and_cache_offline:
  "net (url req) = Inl e \<Longrightarrow> fetch_and_cache any_status faults net req cs = (Inl e, cs)"
  by (simp add: fetch_and_cache_def)

text \<open>
  A response that \<open>cache.put\<close> refuses leaves the block with the error of the \<open>put\<close>,
  after \<open>caches.open\<close> has made sure that the dynamic cache exists.
\<close>

lemma fetch_and_cache_refused:
  assumes "net (url req) = Inr response" "any_status \<or> ok response"
    and "open_fault faults = None" "put_refused req response = Some e"
  shows "fetch_and_cache any_status faults net req cs =
           (Inl e, snd (caches_open DYNAMIC_CACHE cs))"
  using assms by (auto simp: fetch_and_cache_def caches_open_try_def cache_put_try_def)

lemma fetch_and_cache_stored:
  assumes "net (url req) = Inr response" "any_status \<or> ok response"
    and "open_fault faults = None" "put_refused req response = None" "put_fault faults = None"
  shows "fetch_and_cache any_status faults net req cs =
           (Inr response,
            caches_store DYNAMIC_CACHE
              (cache_put (url req) response (fst (caches_open DYNAMIC_CACHE cs)))
              (snd (caches_open DYNAMIC_CACHE cs)))"
  using assms by (auto simp: fetch_and_cache_def caches_open_try_def cache_put_try_def)

lemma offline_text:
  "JSON_stringify 0 (offline_object now) =
     CHR ''{'' # quote ''error'' @ '':'' @ quote ''You are offline'' @ '','' @
     quote ''timestamp'' @ '':'' @ quote now @ '','' @
     quote ''cache'' @ '':'' @ quote ''miss'' @ ''}''"
  by (simp add: JSON_stringify_def offline_object_def wrap_def)

subsection \<open>The API strategy\<close>

text \<open>
  Claim C5, as the code has it. A GET request that the listener classifies as API is
  always answered with a response, never with a rejection, whatever the network and the
  cache storage do. When the \<open>try\<close> block fails (the network cannot be reached, or the
  write into the dynamic cache is rejected) and no cache holds the request, the answer
  has status 200 and content type \<open>application/json\<close>, and its body is valid JSON: it
  reads back as the object with the properties \<open>error\<close> = \<open>You are offline\<close> (capital Y),
  \<open>timestamp\<close> = the time of the answer, \<open>cache\<close> = \<open>miss\<close>. When it is the network that
  failed, the cache storage is untouched.
\<close>

theorem api_offline_response:
  assumes "classify location_origin req = Api"
  shows "(\<exists>r cs'. fetch_listener location_origin faults net now req cs =
                     RespondWith (Inr r, cs')) \<and>
         (net (url req) = Inl e \<and> caches_match (url req) cs = None \<longrightarrow>
            fetch_listener location_origin faults net now req cs =
              RespondWith
                (Inr \<lparr>status = 200, content_type = ''application/json'',
                      body = JSON_stringify 0 (offline_object now)\<rparr>,
                 cs)) \<and>
         (fetch_and_cache False faults net req cs = (Inl e', cs') \<and>
          caches_match (url req) cs' = None \<longrightarrow>
            fetch_listener location_origin faults net now req cs =
              RespondWith
                (Inr \<lparr>status = 200, content_type = ''application/json'',
                      body = JSON_stringify 0 (offline_object now)\<rparr>,
                 cs')) \<and>
         JSON_parse (JSON_stringify 0 (offline_object now)) =
           Some (JSON_object
                   [(''error'', JSON_string ''You are offline''),
                    (''timestamp'', JSON_string now),
                    (''cache'', JSON_string ''miss'')])"
proof -
  have l: "fetch_listener location_origin faults net now req cs =
             RespondWith (apiFirstStrategy faults net now req cs)"
    using assms by (simp add: fetch_listener_def)
  have a: "\<exists>r cs'. apiFirstStrategy faults net now req cs = (Inr r, cs')"
    by (simp add: apiFirstStrategy_def Let_def split: sum.splits option.splits)
  have c: "apiFirstStrategy faults net now req cs =
             (Inr (new_Response (JSON_stringify 0 (offline_object now)) ''application/json''), s)"
    if "fetch_and_cache False faults net req cs = (Inl x, s)" "caches_match (url req) s = None"
    for x s
    using that by (simp add: apiFirstStrategy_def)
  have n: "apiFirstStrategy faults net now req cs =
             (Inr (new_Response (JSON_stringify 0 (offline_object now)) ''application/json''), cs)"
    if "net (url req) = Inl e" "caches_match (url req) cs = None"
    using that by (simp add: c fetch_and_cache_offline)
  have p: "JSON_parse (JSON_stringify 0 (offline_object now)) = Some (offline_object now)"
    by (rule JSON_parse_stringify)
  show ?thesis
    using a c [of e' cs'] n p unfolding l
    by (simp add: new_Response_def offline_object_def)
qed

theorem api_offline_response_witness:
  "classify self_origin (get_request ''/api/patients'' ''cors'') = Api \<and>
   offline_net ''/api/patients'' = Inl (TypeError ''Failed to fetch'') \<and>
   caches_match ''/api/patients'' shell_only = None \<and>
   fetch_listener self_origin no_faults offline_net ''2024-01-01T00:00:00.000Z''
     (get_request ''/api/patients'' ''cors'') shell_only =
     RespondWith
       (Inr \<lparr>status = 200, content_type = ''application/json'',
             body = JSON_stringify 0 (offline_object ''2024-01-01T00:00:00.000Z'')\<rparr>,
        shell_only) \<and>
   fetch_and_cache False no_faults partial_net (get_request ''/api/patients'' ''cors'') shell_only =
     (Inl (TypeError ''Partial response (status code 206) is unsupported''), shell_only) \<and>
   fetch_listener self_origin no_faults partial_net ''2024-01-01T00:00:00.000Z''
     (get_request ''/api/patients'' ''cors'') shell_only =
     RespondWith
       (Inr \<lparr>status = 200, content_type = ''application/json'',
             body = JSON_stringify 0 (offline_object ''2024-01-01T00:00:00.000Z'')\<rparr>,
        shell_only)"
proof -
  have c: "classify self_origin (get_request ''/api/patients'' ''cors'') = Api"
    by (simp add: classify_def get_request_def startsWith_def)
  have n: "offline_net ''/api/patients'' = Inl (TypeError ''Failed to fetch'')"
    by (simp add: offline_net_def)
  have m: "caches_match ''/api/patients'' shell_only = None"
    by (simp add: shell_only_def cache_match_def OFFLINE_URL_def)
  have u: "url (get_request ''/api/patients'' ''cors'') = ''/api/patients''"
    by (simp add: get_request_def)
  have f: "fetch_and_cache False no_faults partial_net (get_request ''/api/patients'' ''cors'')
             shell_only =
           (Inl (TypeError ''Partial response (status code 206) is unsupported''), shell_only)"
    by (simp add: fetch_and_cache_def partial_net_def partial_content_def ok_def
        caches_open_try_def cache_put_try_def put_refused_def no_faults_def caches_open_def
        shell_only_def CACHE_NAME_def CACHE_VERSION_def DYNAMIC_CACHE_def get_request_def)
  have a: "fetch_listener self_origin no_faults offline_net ''2024-01-01T00:00:00.000Z''
     (get_request ''/api/patients'' ''cors'') shell_only =
     RespondWith
       (Inr \<lparr>status = 200, content_type = ''application/json'',
             body = JSON_stringify 0 (offline_object ''2024-01-01T00:00:00.000Z'')\<rparr>,
        shell_only)"
    using api_offline_response [OF c, where net = offline_net and cs = shell_only
        and faults = no_faults
        and now = "''2024-01-01T00:00:00.000Z''" and e = "TypeError ''Failed to fetch''"] n m
    unfolding u by simp
  have b: "fetch_listener self_origin no_faults partial_net ''2024-01-01T00:00:00.000Z''
     (get_request ''/api/patients'' ''cors'') shell_only =
     RespondWith
       (Inr \<lparr>status = 200, content_type = ''application/json'',
             body = JSON_stringify 0 (offline_object ''2024-01-01T00:00:00.000Z'')\<rparr>,
        shell_only)"
    using api_offline_response [OF c, where net = partial_net and cs = shell_only
        and faults = no_faults and now = "''2024-01-01T00:00:00.000Z''"
        and e' = "TypeError ''Partial response (status code 206) is unsupported''"
        and cs' = shell_only] f m
    unfolding u by simp
  show ?thesis using c n m f a b by simp
qed

text \<open>
  The \<open>error\<close> property of the body is not the text \<open>you are offline\<close> that the
  specification quotes.
\<close>

theorem api_offline_counterexample:
  \<open>fst (apiFirstStrategy no_faults offline_net ''2024-01-01T00:00:00.000Z''
         (get_request ''/api/patients'' ''cors'') shell_only) =
     Inr \<lparr>status = 200, content_type = ''application/json'',
           body = ''{"error":"You are offline","timestamp":"2024-01-01T00:00:00.000Z","cache":"miss"}''\<rparr> \<and>
   JSON_parse
     ''{"error":"You are offline","timestamp":"2024-01-01T00:00:00.000Z","cache":"miss"}'' =
     Some (JSON_object
             [(''error'', JSON_string ''You are offline''),
              (''timestamp'', JSON_string ''2024-01-01T00:00:00.000Z''),
              (''cache'', JSON_string ''miss'')]) \<and>
   ''You are offline'' \<noteq> ''you are offline''\<close>
proof -
  have t: "JSON_stringify 0 (offline_object ''2024-01-01T00:00:00.000Z'') =
      [CHR ''{'', CHR 0x22] @ ''error'' @ [CHR 0x22, CHR '':'', CHR 0x22] @ ''You are offline'' @
      [CHR 0x22, CHR '','', CHR 0x22] @ ''timestamp'' @ [CHR 0x22, CHR '':'', CHR 0x22] @
      ''2024-01-01T00:00:00.000Z'' @ [CHR 0x22, CHR '','', CHR 0x22] @ ''cache'' @
      [CHR 0x22, CHR '':'', CHR 0x22] @ ''miss'' @ [CHR 0x22, CHR ''}'']"
    by (simp add: offline_text quote_def escape_char_def)
  have p: "JSON_parse (JSON_stringify 0 (offline_object ''2024-01-01T00:00:00.000Z'')) =
             Some (offline_object ''2024-01-01T00:00:00.000Z'')"
    by (rule JSON_parse_stringify)
  have s: "fst (apiFirstStrategy no_faults offline_net ''2024-01-01T00:00:00.000Z''
              (get_request ''/api/patients'' ''cors'') shell_only) =
           Inr (new_Response (JSON_stringify 0 (offline_object ''2024-01-01T00:00:00.000Z''))
                  ''application/json'')"
    by (simp add: apiFirstStrategy_def fetch_and_cache_def offline_net_def get_request_def
        shell_only_def cache_match_def OFFLINE_URL_def)
  show ?thesis
    using p unfolding s t by (simp add: new_Response_def offline_object_def)
qed

subsection \<open>The navigation strategy\<close>

text \<open>
  Claim C6, as the code has it. A request that the listener classifies as navigation is
  always answered with a response, never with a rejection, whatever the network and the
  cache storage do. When the \<open>try\<close> block fails (the network cannot be reached, or the
  write into the dynamic cache is rejected), the answer is the first copy of the request
  that any cache holds (the shell cache as well as the dynamic cache, in the order of
  their creation), else the offline document from any cache, else the generated page.
  When it is the network that failed, the cache storage is untouched.
\<close>

theorem navigation_always_responds:
  assumes "classify location_origin req = Navigation"
  shows "(\<exists>r cs'. fetch_listener location_origin faults net now req cs =
                     RespondWith (Inr r, cs')) \<and>
         (net (url req) = Inl e \<longrightarrow>
            fetch_listener location_origin faults net now req cs =
              RespondWith
                (Inr (case caches_match (url req) cs of
                        Some cachedResponse \<Rightarrow> cachedResponse
                      | None \<Rightarrow>
                          (case caches_match OFFLINE_URL cs of
                             Some offlineResponse \<Rightarrow> offlineResponse
                           | None \<Rightarrow> new_Response inline_offline_page ''text/html'')),
                 cs)) \<and>
         (fetch_and_cache True faults net req cs = (Inl e', cs') \<longrightarrow>
            fetch_listener location_origin faults net now req cs =
              RespondWith
                (Inr (case caches_match (url req) cs' of
                        Some cachedResponse \<Rightarrow> cachedResponse
                      | None \<Rightarrow>
                          (case caches_match OFFLINE_URL cs' of
                             Some offlineResponse \<Rightarrow> offlineResponse
                           | None \<Rightarrow> new_Response inline_offline_page ''text/html'')),
                 cs'))"
proof -
  have l: "fetch_listener location_origin faults net now req cs =
             RespondWith (navigationFirstStrategy faults net req cs)"
    using assms by (simp add: fetch_listener_def)
  have a: "\<exists>r cs'. navigationFirstStrategy faults net req cs = (Inr r, cs')"
    by (simp add: navigationFirstStrategy_def Let_def split: sum.splits option.splits)
  have c: "navigationFirstStrategy faults net req cs =
             (Inr (case caches_match (url req) s of
                     Some cachedResponse \<Rightarrow> cachedResponse
                   | None \<Rightarrow>
                       (case caches_match OFFLINE_URL s of
                          Some offlineResponse \<Rightarrow> offlineResponse
                        | None \<Rightarrow> new_Response inline_offline_page ''text/html'')), s)"
    if "fetch_and_cache True faults net req cs = (Inl x, s)" for x s
    using that by (simp add: navigationFirstStrategy_def split: option.splits)
  have n: "navigationFirstStrategy faults net req cs =
             (Inr (case caches_match (url req) cs of
                     Some cachedResponse \<Rightarrow> cachedResponse
                   | None \<Rightarrow>
                       (case caches_match OFFLINE_URL cs of
                          Some offlineResponse \<Rightarrow> offlineResponse
                        | None \<Rightarrow> new_Response inline_offline_page ''text/html'')), cs)"
    if "net (url req) = Inl e"
    using that by (simp add: c fetch_and_cache_offline)
  show ?thesis
    using a c [of e' cs'] n unfolding l by simp
qed

theorem navigation_always_responds_witness:
  "classify self_origin (get_request ''/index.html'' ''navigate'') = Navigation \<and>
   fetch_listener self_origin no_faults offline_net ''2024-01-01T00:00:00.000Z''
     (get_request ''/index.html'' ''navigate'') shell_only =
     RespondWith
       (Inr \<lparr>status = 200, content_type = ''text/html'', body = ''<html>start</html>''\<rparr>,
        shell_only) \<and>
   fetch_and_cache True quota_exceeded (\<lambda>u. Inr (asset_response 200))
     (get_request ''/triage'' ''navigate'') shell_only =
     (Inl (DOMException ''QuotaExceededError'' ''Quota exceeded.''), shell_only) \<and>
   fetch_listener self_origin quota_exceeded (\<lambda>u. Inr (asset_response 200))
     ''2024-01-01T00:00:00.000Z'' (get_request ''/triage'' ''navigate'') shell_only =
     RespondWith
       (Inr \<lparr>status = 200, content_type = ''text/html'', body = ''<html>offline</html>''\<rparr>,
        shell_only)"
proof -
  have c: "classify self_origin (get_request p ''navigate'') = Navigation"
    if "\<not> includes_str p ''/api/''" for p
    using that by (simp add: classify_def get_request_def)
  have c1: "classify self_origin (get_request ''/index.html'' ''navigate'') = Navigation"
    by (rule c) (simp add: startsWith_def)
  have c2: "classify self_origin (get_request ''/triage'' ''navigate'') = Navigation"
    by (rule c) (simp add: startsWith_def)
  have u: "url (get_request p ''navigate'') = p" for p
    by (simp add: get_request_def)
  have m: "caches_match ''/index.html'' shell_only =
             Some \<lparr>status = 200, content_type = ''text/html'', body = ''<html>start</html>''\<rparr>"
    by (simp add: shell_only_def cache_match_def)
  have m2: "caches_match ''/triage'' shell_only = None"
    "caches_match OFFLINE_URL shell_only =
       Some \<lparr>status = 200, content_type = ''text/html'', body = ''<html>offline</html>''\<rparr>"
    by (simp_all add: shell_only_def cache_match_def OFFLINE_URL_def)
  have f: "fetch_and_cache True quota_exceeded (\<lambda>u. Inr (asset_response 200))
             (get_request ''/triage'' ''navigate'') shell_only =
           (Inl (DOMException ''QuotaExceededError'' ''Quota exceeded.''), shell_only)"
    by (simp add: fetch_and_cache_def asset_response_def caches_open_try_def cache_put_try_def
        put_refused_def quota_exceeded_def caches_open_def shell_only_def CACHE_NAME_def
        CACHE_VERSION_def DYNAMIC_CACHE_def get_request_def)
  have a: "fetch_listener self_origin no_faults offline_net ''2024-01-01T00:00:00.000Z''
     (get_request ''/index.html'' ''navigate'') shell_only =
     RespondWith
       (Inr \<lparr>status = 200, content_type = ''text/html'', body = ''<html>start</html>''\<rparr>,
        shell_only)"
    using navigation_always_responds [OF c1, where net = offline_net and cs = shell_only
        and faults = no_faults
        and now = "''2024-01-01T00:00:00.000Z''" and e = "TypeError ''Failed to fetch''"]
    unfolding u m by (simp add: offline_net_def)
  have b: "fetch_listener self_origin quota_exceeded (\<lambda>u. Inr (asset_response 200))
     ''2024-01-01T00:00:00.000Z'' (get_request ''/triage'' ''navigate'') shell_only =
     RespondWith
       (Inr \<lparr>status = 200, content_type = ''text/html'', body = ''<html>offline</html>''\<rparr>,
        shell_only)"
    using navigation_always_responds [OF c2, where net = "\<lambda>u. Inr (asset_response 200)"
        and cs = shell_only and faults = quota_exceeded
        and now = "''2024-01-01T00:00:00.000Z''"
        and e' = "DOMException ''QuotaExceededError'' ''Quota exceeded.''"
        and cs' = shell_only] f
    unfolding u m2 by simp
  show ?thesis using c1 f a b by simp
qed

text \<open>
  With the start page in the shell cache only, the navigation strategy answers with the
  start page; the chain of the specification, which asks the dynamic cache alone, would
  give the offline document.
\<close>

theorem navigation_counterexample:
  "fst (navigationFirstStrategy no_faults offline_net (get_request ''/index.html'' ''navigate'')
         shell_only) =
     Inr \<lparr>status = 200, content_type = ''text/html'', body = ''<html>start</html>''\<rparr> \<and>
   cache_match ''/index.html'' (cache_named DYNAMIC_CACHE shell_only) = None \<and>
   navigation_fallback_spec (get_request ''/index.html'' ''navigate'') shell_only =
     \<lparr>status = 200, content_type = ''text/html'', body = ''<html>offline</html>''\<rparr>"
  by (simp add: navigationFirstStrategy_def fetch_and_cache_def offline_net_def get_request_def
      shell_only_def cache_match_def navigation_fallback_spec_def cache_named_def CACHE_NAME_def
      CACHE_VERSION_def DYNAMIC_CACHE_def OFFLINE_URL_def)

text \<open>
  A response of status 206, which \<open>cache.put\<close> refuses, is not what a navigation is
  answered with: the strategy goes down its chain and stores nothing.
\<close>

lemma navigation_partial_content:
  "fetch_listener self_origin no_faults partial_net ''2024-01-01T00:00:00.000Z''
     (get_request ''/triage'' ''navigate'') shell_only =
     RespondWith
       (Inr \<lparr>status = 200, content_type = ''text/html'', body = ''<html>offline</html>''\<rparr>,
        shell_only)"
  by (simp add: fetch_listener_def classify_def get_request_def startsWith_def
      navigationFirstStrategy_def fetch_and_cache_def partial_net_def partial_content_def
      caches_open_try_def cache_put_try_def put_refused_def no_faults_def caches_open_def
      shell_only_def CACHE_NAME_def CACHE_VERSION_def DYNAMIC_CACHE_def cache_match_def
      OFFLINE_URL_def)

subsection \<open>The object store\<close>

lemma find_map_replace:
  "find (\<lambda>q. patient_id q = patient_id p) db = Some q0 \<Longrightarrow>
   find (\<lambda>q. patient_id q = patient_id p)
     (map (\<lambda>q. if patient_id q = patient_id p then p else q) db) = Some p"
  by (induction db) (auto split: if_splits)

lemma find_insort_new:
  "find (\<lambda>q. patient_id q = patient_id p) db = None \<Longrightarrow>
   find (\<lambda>q. patient_id q = patient_id p) (insort_key patient_id p db) = Some p"
  by (induction db) (auto split: if_splits)

lemma store_get_put: "store_get (patient_id p) (store_put p db) = Some p"
  by (cases "store_get (patient_id p) db")
     (auto simp: store_get_def store_put_def find_insort_new find_map_replace)

subsection \<open>Saving a patient record\<close>

text \<open>
  What \<open>savePatient\<close> stores, for every record: the incoming record with \<open>updatedAt\<close> set
  to the time of the call and \<open>syncStatus\<close> set by \<open>patient.syncStatus || 'pending'\<close>.
\<close>

lemma savePatient_stored:
  assumes "savePatient io now patient db = Inr (k, db')"
  shows "k = patient_id patient \<and>
         store_get (patient_id patient) db' =
           Some (patient\<lparr>syncStatus := js_or (syncStatus patient) (JStr ''pending''),
                         updatedAt := Some now\<rparr>)"
proof -
  let ?p = "patient\<lparr>syncStatus := js_or (syncStatus patient) (JStr ''pending''),
                      updatedAt := Some now\<rparr>"
  from assms have k: "k = patient_id patient" and db': "db' = store_put ?p db"
    by (auto simp: savePatient_def Let_def split: if_splits)
  have "store_get (patient_id patient) db' = Some ?p"
    unfolding db' using store_get_put [of ?p db] by simp
  then show ?thesis using k by simp
qed

text \<open>
  Claim C8. A patient record of the data model has no \<open>syncStatus\<close> yet or one of the two
  tags \<open>pending\<close> and \<open>synced\<close>. When \<open>savePatient\<close> succeeds on such a record, the record
  stored under its identifier is the incoming record with \<open>updatedAt\<close> set to the time of
  the call, and with \<open>syncStatus\<close> = \<open>pending\<close> if the incoming record had none, and with
  the \<open>syncStatus\<close> of the incoming record otherwise.
\<close>

theorem savePatient_stamps:
  assumes "savePatient io now patient db = Inr (k, db')"
    and "syncStatus patient \<in> {JUndefined, JStr ''pending'', JStr ''synced''}"
  shows "k = patient_id patient \<and>
         (\<exists>stored. store_get (patient_id patient) db' = Some stored \<and>
            updatedAt stored = Some now \<and>
            syncStatus stored =
              (if syncStatus patient = JUndefined then JStr ''pending''
               else syncStatus patient) \<and>
            stored = patient\<lparr>syncStatus := syncStatus stored, updatedAt := Some now\<rparr>)"
  using savePatient_stored [OF assms(1)] assms(2) by (auto simp: js_or_def)

theorem savePatient_stamps_witness:
  "savePatient all_ok ''2024-05-01T10:00:00.000Z''
     (new_patient ''PAT-1'' ''2024-05-01T09:59:00.000Z'' JUndefined) [] =
     Inr (''PAT-1'', [new_patient ''PAT-1'' ''2024-05-01T09:59:00.000Z'' (JStr ''pending'')
                       \<lparr>updatedAt := Some ''2024-05-01T10:00:00.000Z''\<rparr>]) \<and>
   savePatient all_ok ''2024-05-01T10:00:00.000Z''
     (new_patient ''PAT-1'' ''2024-05-01T09:59:00.000Z'' (JStr ''synced'')) [] =
     Inr (''PAT-1'', [new_patient ''PAT-1'' ''2024-05-01T09:59:00.000Z'' (JStr ''synced'')
                       \<lparr>updatedAt := Some ''2024-05-01T10:00:00.000Z''\<rparr>]) \<and>
   (\<exists>stored. store_get ''PAT-1''
                [new_patient ''PAT-1'' ''2024-05-01T09:59:00.000Z'' (JStr ''pending'')
                   \<lparr>updatedAt := Some ''2024-05-01T10:00:00.000Z''\<rparr>] = Some stored \<and>
      updatedAt stored = Some ''2024-05-01T10:00:00.000Z'' \<and>
      syncStatus stored = JStr ''pending'') \<and>
   (\<exists>stored. store_get ''PAT-1''
                [new_patient ''PAT-1'' ''2024-05-01T09:59:00.000Z'' (JStr ''synced'')
                   \<lparr>updatedAt := Some ''2024-05-01T10:00:00.000Z''\<rparr>] = Some stored \<and>
      updatedAt stored = Some ''2024-05-01T10:00:00.000Z'' \<and>
      syncStatus stored = JStr ''synced'')"
proof -
  have s: "savePatient all_ok ''2024-05-01T10:00:00.000Z''
             (new_patient ''PAT-1'' ''2024-05-01T09:59:00.000Z'' v) [] =
           Inr (''PAT-1'', [new_patient ''PAT-1'' ''2024-05-01T09:59:00.000Z''
                              (js_or v (JStr ''pending''))
                             \<lparr>updatedAt := Some ''2024-05-01T10:00:00.000Z''\<rparr>])" for v
    by (simp add: savePatient_def all_ok_def new_patient_def store_put_def store_get_def)
  have a: "js_or JUndefined (JStr ''pending'') = JStr ''pending''"
    "js_or (JStr ''synced'') (JStr ''pending'') = JStr ''synced''"
    by (simp_all add: js_or_def)
  note s1 = s [of JUndefined, unfolded a]
  note s2 = s [of "JStr ''synced''", unfolded a]
  have d1: "syncStatus (new_patient ''PAT-1'' ''2024-05-01T09:59:00.000Z'' JUndefined)
              \<in> {JUndefined, JStr ''pending'', JStr ''synced''}"
    by (simp add: new_patient_def)
  have d2: "syncStatus (new_patient ''PAT-1'' ''2024-05-01T09:59:00.000Z'' (JStr ''synced''))
              \<in> {JUndefined, JStr ''pending'', JStr ''synced''}"
    by (simp add: new_patient_def)
  show ?thesis
    using s1 s2 savePatient_stamps [OF s1 d1] savePatient_stamps [OF s2 d2]
    by (auto simp: new_patient_def)
qed

subsection \<open>The loops over the pending records\<close>

lemma store_get_member:
  "distinct (map patient_id db) \<Longrightarrow> p \<in> set db \<Longrightarrow> store_get (patient_id p) db = Some p"
  unfolding store_get_def
  by (induction db) (auto simp: image_iff)

lemma store_put_member:
  assumes "distinct (map patient_id db)" "p \<in> set db" "patient_id p' = patient_id p"
  shows "store_put p' db = map (\<lambda>q. if q = p then p' else q) db"
proof -
  have inj: "inj_on patient_id (set db)"
    using assms(1) by (simp add: distinct_map)
  have "store_put p' db = map (\<lambda>q. if patient_id q = patient_id p' then p' else q) db"
    using store_get_member [OF assms(1,2)] assms(3) by (simp add: store_put_def)
  also have "\<dots> = map (\<lambda>q. if q = p then p' else q) db"
    using inj assms(2,3) by (intro map_cong) (auto dest: inj_onD)
  finally show ?thesis .
qed

lemma mark_step:
  assumes d: "distinct (map patient_id db)" and p: "p \<in> set db"
    and ps: "set ps \<subseteq> set db" "p \<notin> set ps"
  shows "distinct (map patient_id (store_put (mark t p) db))"
    and "set ps \<subseteq> set (store_put (mark t p) db)"
    and "mark t p \<notin> set ps"
proof -
  have eq: "store_put (mark t p) db = map (\<lambda>q. if q = p then mark t p else q) db"
    by (rule store_put_member [OF d p]) (simp add: mark_def)
  have ids: "map patient_id (store_put (mark t p) db) = map patient_id db"
    unfolding eq by (simp add: comp_def mark_def if_distrib cong: if_cong)
  show "distinct (map patient_id (store_put (mark t p) db))"
    unfolding ids by (rule d)
  show "set ps \<subseteq> set (store_put (mark t p) db)"
    unfolding eq using ps by auto
  have inj: "inj_on patient_id (set db)"
    using d by (simp add: distinct_map)
  show "mark t p \<notin> set ps"
  proof
    assume m: "mark t p \<in> set ps"
    then have "mark t p \<in> set db" using ps by auto
    moreover have "patient_id (mark t p) = patient_id p" by (simp add: mark_def)
    ultimately have "mark t p = p" using inj p by (auto dest: inj_onD)
    with m ps show False by simp
  qed
qed

lemma clear_loop_map:
  assumes "distinct (map patient_id db)" "set ps \<subseteq> set db" "distinct ps"
  shows "clear_loop env i ps db =
           map (\<lambda>q. if q \<in> set ps then mark (clock env (i + position q ps)) q else q) db"
  using assms
proof (induction ps arbitrary: i db)
  case Nil
  show ?case by simp
next
  case (Cons p ps)
  let ?t = "clock env i"
  let ?db = "store_put (mark ?t p) db"
  from Cons.prems have p: "p \<in> set db" and ps: "set ps \<subseteq> set db" "p \<notin> set ps"
    and dps: "distinct ps" by auto
  note st = mark_step [OF Cons.prems(1) p ps, of ?t]
  have eq: "?db = map (\<lambda>q. if q = p then mark ?t p else q) db"
    by (rule store_put_member [OF Cons.prems(1) p]) (simp add: mark_def)
  have "clear_loop env i (p # ps) db = clear_loop env (Suc i) ps ?db"
    by (simp add: mark_def)
  also have "\<dots> = map (\<lambda>q. if q \<in> set ps then mark (clock env (Suc i + position q ps)) q else q) ?db"
    by (rule Cons.IH [OF st(1) st(2) dps])
  also have "\<dots> = map (\<lambda>q. if q \<in> set (p # ps)
                            then mark (clock env (i + position q (p # ps))) q else q) db"
    unfolding eq map_map using st(3) ps(2) by (intro map_cong) auto
  finally show ?case .
qed

lemma markAsSynced_ok:
  assumes "distinct (map patient_id db)" "p \<in> set db" "txn_ok io"
  shows "markAsSynced io t (patient_id p) db = Inr (store_put (mark t p) db)"
  using assms store_get_member [OF assms(1,2)]
  by (simp add: markAsSynced_def txn_ok_def mark_def)

lemma markAsSynced_fail:
  assumes "distinct (map patient_id db)" "p \<in> set db" "\<not> txn_ok io"
  shows "markAsSynced io t (patient_id p) db = Inl (request_error io)"
  using assms store_get_member [OF assms(1,2)]
  by (auto simp: markAsSynced_def txn_ok_def)

lemma sync_loop_map:
  assumes "distinct (map patient_id db)" "set ps \<subseteq> set db" "distinct ps"
    and "n \<le> length ps"
    and "\<forall>j<n. txn_ok (txn env (Suc (i + j)))"
    and "n < length ps \<longrightarrow> \<not> txn_ok (txn env (Suc (i + n)))"
  shows "sync_loop env i ps db =
           (map (\<lambda>q. if q \<in> set (take n ps) then mark (clock env (i + position q ps)) q else q) db,
            if n < length ps then Some (request_error (txn env (Suc (i + n)))) else None)"
  using assms
proof (induction ps arbitrary: i db n)
  case Nil
  then show ?case by simp
next
  case (Cons p ps)
  from Cons.prems have p: "p \<in> set db" and ps: "set ps \<subseteq> set db" "p \<notin> set ps"
    and dps: "distinct ps" by auto
  show ?case
  proof (cases n)
    case 0
    with Cons.prems have "\<not> txn_ok (txn env (Suc i))" by simp
    from markAsSynced_fail [OF Cons.prems(1) p this] 0 show ?thesis by simp
  next
    case (Suc m)
    let ?t = "clock env i"
    let ?db = "store_put (mark ?t p) db"
    note st = mark_step [OF Cons.prems(1) p ps, of ?t]
    have eq: "?db = map (\<lambda>q. if q = p then mark ?t p else q) db"
      by (rule store_put_member [OF Cons.prems(1) p]) (simp add: mark_def)
    from Cons.prems(5) Suc have ok0: "txn_ok (txn env (Suc i))" by force
    have m1: "m \<le> length ps" using Cons.prems(4) Suc by simp
    have m2: "\<forall>j<m. txn_ok (txn env (Suc (Suc i + j)))"
      using Cons.prems(5) Suc by (metis Suc_less_eq add_Suc add_Suc_right)
    have m3: "m < length ps \<longrightarrow> \<not> txn_ok (txn env (Suc (Suc i + m)))"
      using Cons.prems(6) Suc by simp
    have notin: "mark ?t p \<notin> set (take m ps)" "p \<notin> set (take m ps)"
      using st(3) ps(2) by (auto dest: in_set_takeD)
    have "sync_loop env i (p # ps) db = sync_loop env (Suc i) ps ?db"
      using markAsSynced_ok [OF Cons.prems(1) p ok0] by simp
    also have "\<dots> = (map (\<lambda>q. if q \<in> set (take m ps)
                               then mark (clock env (Suc i + position q ps)) q else q) ?db,
                       if m < length ps then Some (request_error (txn env (Suc (Suc i + m))))
                       else None)"
      by (rule Cons.IH [OF st(1) st(2) dps m1 m2 m3])
    also have "map (\<lambda>q. if q \<in> set (take m ps)
                        then mark (clock env (Suc i + position q ps)) q else q) ?db
               = map (\<lambda>q. if q \<in> set (take n (p # ps))
                         then mark (clock env (i + position q (p # ps))) q else q) db"
      unfolding eq map_map Suc using notin by (intro map_cong) auto
    finally show ?thesis using Suc by simp
  qed
qed

lemma pending_props:
  assumes "distinct (map patient_id db)"
  shows "set (index_getAll v db) \<subseteq> set db" "distinct (index_getAll v db)"
  using assms by (auto simp: index_getAll_def distinct_map)

lemma three_pending_eq: "three_pending = [pat10, pat2, pat3]"
  by (simp add: three_pending_def store_put_def store_get_def pat2_def pat3_def pat10_def
      new_patient_def)

lemma three_pending_distinct: "distinct (map patient_id (patients (worker_with three_pending)))"
  by (simp add: three_pending_eq worker_with_def pat2_def pat3_def pat10_def new_patient_def)

lemma three_pending_records:
  "pending_records (patients (worker_with three_pending)) = [pat10, pat2, pat3]"
  by (simp add: three_pending_eq worker_with_def pending_records_def index_getAll_def
      pat2_def pat3_def pat10_def new_patient_def)

lemma pats_differ: "pat10 \<noteq> pat2" "pat10 \<noteq> pat3" "pat2 \<noteq> pat3" "pat2 \<noteq> pat10"
  "pat3 \<noteq> pat10" "pat3 \<noteq> pat2"
  by (simp_all add: pat2_def pat3_def pat10_def new_patient_def)

lemma pats_pending: "syncStatus pat10 = JStr ''pending''" "syncStatus pat2 = JStr ''pending''"
  "syncStatus pat3 = JStr ''pending''"
  by (simp_all add: pat2_def pat3_def pat10_def new_patient_def)

subsection \<open>Clearing the pending records\<close>

text \<open>
  What the \<open>CLEAR_PENDING_DATA\<close> case does, by the outcome of the transaction. When its
  requests succeed, every record with \<open>syncStatus = 'pending'\<close> becomes \<open>synced\<close> with
  \<open>syncedAt\<close> stamped, every other record stays as it is, and the one reply posted carries
  the number of pending records. When the read succeeds and a write fails, the same reply
  is posted and no record changes. When the read fails, no reply is posted and nothing
  changes. A database that does not open is answered by the \<open>catch\<close> of the listener,
  with a failure. In every case the worker passes nothing to \<open>fetch\<close>. The keys of the
  object store are distinct.
\<close>

lemma clear_pending_local:
  assumes "message_type msg = ''CLEAR_PENDING_DATA''"
    and "distinct (map patient_id (patients w))"
  shows "(txn_ok (txn env 0) \<longrightarrow>
            on_message env clients msg w =
              (w\<lparr>patients :=
                   map (\<lambda>q. if syncStatus q = JStr ''pending''
                            then q\<lparr>syncStatus := JStr ''synced'',
                                   syncedAt := Some (clock env
                                     (position q (pending_records (patients w))))\<rparr>
                            else q) (patients w)\<rparr>,
               [SuccessCleared (length (pending_records (patients w)))])) \<and>
         (open_ok (txn env 0) \<and> get_ok (txn env 0) \<and> \<not> put_ok (txn env 0) \<longrightarrow>
            on_message env clients msg w =
              (w, [SuccessCleared (length (pending_records (patients w)))])) \<and>
         (open_ok (txn env 0) \<and> \<not> get_ok (txn env 0) \<longrightarrow>
            on_message env clients msg w = (w, [])) \<and>
         (\<not> open_ok (txn env 0) \<longrightarrow>
            on_message env clients msg w = (w, [Failure (message (request_error (txn env 0)))])) \<and>
         fetched (fst (on_message env clients msg w)) = fetched w"
proof -
  let ?pend = "index_getAll (JStr ''pending'') (patients w)"
  have loop: "clear_loop env 0 ?pend (patients w) =
                map (\<lambda>q. if q \<in> set ?pend then mark (clock env (0 + position q ?pend)) q else q)
                  (patients w)"
    by (rule clear_loop_map [OF assms(2) pending_props [OF assms(2)]])
  also have "\<dots> = map (\<lambda>q. if syncStatus q = JStr ''pending''
                            then q\<lparr>syncStatus := JStr ''synced'',
                                   syncedAt := Some (clock env (position q ?pend))\<rparr>
                            else q) (patients w)"
    by (rule map_cong) (auto simp: index_getAll_def mark_def)
  finally have loop': "clear_loop env 0 ?pend (patients w) = \<dots>" .
  have t: "message_type msg \<noteq> ''SAVE_PATIENT''" "message_type msg \<noteq> ''GET_PATIENTS''"
    "message_type msg \<noteq> ''GET_PENDING_DATA''"
    using assms(1) by simp_all
  show ?thesis
    using assms(1) loop'
    by (simp add: on_message_def message_body_def t txn_ok_def Let_def pending_records_def)
qed

lemma clear_pending_examples:
  "on_message calm [7] clear_message (worker_with three_pending) =
     (\<lparr>caches = [],
       patients = [mark (example_clock 0) pat10, mark (example_clock 1) pat2,
                   mark (example_clock 2) pat3],
       fetched = [], posted = []\<rparr>, [SuccessCleared 3]) \<and>
   on_message read_fails [7] clear_message (worker_with three_pending) =
     (worker_with three_pending, []) \<and>
   on_message open_fails [7] clear_message (worker_with three_pending) =
     (worker_with three_pending, [Failure ''The request failed''])"
proof -
  have t: "message_type clear_message = ''CLEAR_PENDING_DATA''"
    by (simp add: clear_message_def)
  note th = clear_pending_local [OF t three_pending_distinct, where clients = "[7]"]
  have ok: "txn_ok (txn calm 0)"
    by (simp add: calm_def all_ok_def txn_ok_def)
  have bad: "open_ok (txn read_fails 0) \<and> \<not> get_ok (txn read_fails 0)"
    by (simp add: read_fails_def all_ok_def)
  have shut: "\<not> open_ok (txn open_fails 0)"
    "message (request_error (txn open_fails 0)) = ''The request failed''"
    by (simp_all add: open_fails_def all_ok_def)
  have a: "on_message calm [7] clear_message (worker_with three_pending) =
     (\<lparr>caches = [],
       patients = [mark (example_clock 0) pat10, mark (example_clock 1) pat2,
                   mark (example_clock 2) pat3],
       fetched = [], posted = []\<rparr>, [SuccessCleared 3])"
    using th [where env = calm] ok
    unfolding three_pending_records
    by (simp add: pats_differ pats_pending mark_def)
       (simp add: worker_with_def three_pending_eq pats_pending pats_differ calm_def
          numeral_2_eq_2)
  have b: "on_message read_fails [7] clear_message (worker_with three_pending) =
     (worker_with three_pending, [])"
    using th [where env = read_fails] bad by simp
  have c: "on_message open_fails [7] clear_message (worker_with three_pending) =
     (worker_with three_pending, [Failure ''The request failed''])"
    using th [where env = open_fails] shut by simp
  show ?thesis using a b c by simp
qed

text \<open>
  The sibling paths report a write that fails: \<open>markAsSynced\<close> and \<open>savePatient\<close> reject
  with the error of the request, and the listener answers with a failure.
\<close>

lemma savePatient_write_fails:
  "on_message write_fails [7]
     \<lparr>message_type = ''SAVE_PATIENT'', message_data = Some (Payload (Some pat2))\<rparr>
     (worker_with []) =
     (worker_with [], [Failure ''The request failed''])"
  by (simp add: on_message_def message_body_def savePatient_def write_fails_def all_ok_def
      Let_def)

text \<open>
  Claim C10. The \<open>CLEAR_PENDING_DATA\<close> operation is to turn every pending record into a
  synced one and to reply with the number of the records cleared. With three pending
  records in the store and a transaction whose writes fail, the listener replies
  \<open>{ success: true, cleared: 3 }\<close>, and the three records are pending as before: the reply
  is posted by the success callback of the read, before any write has been confirmed,
  and nothing listens for the failure of a write.
\<close>

theorem clear_pending_reports_unwritten:
  "message_type clear_message = ''CLEAR_PENDING_DATA'' \<and>
   pending_records (patients (worker_with three_pending)) = [pat10, pat2, pat3] \<and>
   open_ok (txn write_fails 0) \<and> get_ok (txn write_fails 0) \<and> \<not> put_ok (txn write_fails 0) \<and>
   on_message write_fails [7] clear_message (worker_with three_pending) =
     (worker_with three_pending, [SuccessCleared 3]) \<and>
   pending_records
     (patients (fst (on_message write_fails [7] clear_message (worker_with three_pending)))) =
     [pat10, pat2, pat3]"
proof -
  have t: "message_type clear_message = ''CLEAR_PENDING_DATA''"
    by (simp add: clear_message_def)
  have io: "open_ok (txn write_fails 0) \<and> get_ok (txn write_fails 0) \<and>
            \<not> put_ok (txn write_fails 0)"
    by (simp add: write_fails_def all_ok_def)
  have m: "on_message write_fails [7] clear_message (worker_with three_pending) =
             (worker_with three_pending, [SuccessCleared 3])"
    using io
    by (simp add: on_message_def message_body_def t Let_def three_pending_eq worker_with_def
        index_getAll_def pats_pending)
  show ?thesis
    using t io three_pending_records unfolding m by simp
qed

subsection \<open>Reconciliation\<close>

text \<open>
  Claim C1, as the code has it. \<open>syncPendingData\<close> reads the records with
  \<open>syncStatus = 'pending'\<close> in the order of the object store (ascending key), and marks
  them one after the other as \<open>synced\<close>, stamping \<open>syncedAt\<close>; it passes nothing to
  \<open>fetch\<close>. When there are pending records and every mark succeeds, each client gets one
  \<open>SYNC_COMPLETE\<close> message, which carries the number of pending records read. When
  there is no pending record, or the read of the pending records fails, nothing changes
  and no message is posted. When the mark
  of the record at position \<open>n\<close> fails, the records before it are marked, that record and
  the later ones stay as they are, and no message is posted.
\<close>

theorem sync_marks_and_notifies:
  assumes "distinct (map patient_id (patients w))"
  shows "(open_ok (txn env 0) \<and> get_ok (txn env 0) \<and> pending_records (patients w) \<noteq> [] \<and>
          (\<forall>j<length (pending_records (patients w)). txn_ok (txn env (Suc j))) \<longrightarrow>
            syncPendingData env clients w =
              w\<lparr>patients :=
                   map (\<lambda>q. if syncStatus q = JStr ''pending''
                            then q\<lparr>syncStatus := JStr ''synced'',
                                   syncedAt := Some (clock env
                                     (position q (pending_records (patients w))))\<rparr>
                            else q) (patients w),
                 posted := posted w @
                   map (\<lambda>client. (client, SYNC_COMPLETE (length (pending_records (patients w)))))
                     clients\<rparr>) \<and>
         (pending_records (patients w) = [] \<longrightarrow> syncPendingData env clients w = w) \<and>
         (\<not> (open_ok (txn env 0) \<and> get_ok (txn env 0)) \<longrightarrow>
            syncPendingData env clients w = w) \<and>
         (open_ok (txn env 0) \<and> get_ok (txn env 0) \<and> n < length (pending_records (patients w)) \<and>
          (\<forall>j<n. txn_ok (txn env (Suc j))) \<and> \<not> txn_ok (txn env (Suc n)) \<longrightarrow>
            syncPendingData env clients w =
              w\<lparr>patients :=
                   map (\<lambda>q. if q \<in> set (take n (pending_records (patients w)))
                            then q\<lparr>syncStatus := JStr ''synced'',
                                   syncedAt := Some (clock env
                                     (position q (pending_records (patients w))))\<rparr>
                            else q) (patients w)\<rparr>) \<and>
         fetched (syncPendingData env clients w) = fetched w"
proof -
  let ?pend = "pending_records (patients w)"
  note pp = pending_props [OF assms, of "JStr ''pending''", folded pending_records_def]
  have mem: "q \<in> set ?pend \<longleftrightarrow> syncStatus q = JStr ''pending''" if "q \<in> set (patients w)" for q
    using that by (simp add: pending_records_def index_getAll_def)
  have success: "syncPendingData env clients w =
      w\<lparr>patients := map (\<lambda>q. if syncStatus q = JStr ''pending''
                            then q\<lparr>syncStatus := JStr ''synced'',
                                   syncedAt := Some (clock env (position q ?pend))\<rparr>
                            else q) (patients w),
        posted := posted w @ map (\<lambda>client. (client, SYNC_COMPLETE (length ?pend))) clients\<rparr>"
    if io: "open_ok (txn env 0)" "get_ok (txn env 0)" and ne: "?pend \<noteq> []"
      and ok: "\<forall>j<length ?pend. txn_ok (txn env (Suc j))"
  proof -
    have "sync_loop env 0 ?pend (patients w) =
            (map (\<lambda>q. if q \<in> set (take (length ?pend) ?pend)
                      then mark (clock env (0 + position q ?pend)) q else q) (patients w),
             if length ?pend < length ?pend
             then Some (request_error (txn env (Suc (0 + length ?pend)))) else None)"
      using ok by (intro sync_loop_map [OF assms pp]) simp_all
    also have "map (\<lambda>q. if q \<in> set (take (length ?pend) ?pend)
                      then mark (clock env (0 + position q ?pend)) q else q) (patients w)
               = map (\<lambda>q. if syncStatus q = JStr ''pending''
                            then q\<lparr>syncStatus := JStr ''synced'',
                                   syncedAt := Some (clock env (position q ?pend))\<rparr>
                            else q) (patients w)"
      by (rule map_cong) (simp_all add: mem mark_def)
    finally show ?thesis
      using io ne
      by (simp add: syncPendingData_def getPendingPatients_def pending_records_def)
  qed
  have empty: "syncPendingData env clients w = w" if "?pend = []"
    using that
    by (simp add: syncPendingData_def getPendingPatients_def pending_records_def)
  have failure: "syncPendingData env clients w =
      w\<lparr>patients := map (\<lambda>q. if q \<in> set (take n ?pend)
                            then q\<lparr>syncStatus := JStr ''synced'',
                                   syncedAt := Some (clock env (position q ?pend))\<rparr>
                            else q) (patients w)\<rparr>"
    if io: "open_ok (txn env 0)" "get_ok (txn env 0)" and n: "n < length ?pend"
      and ok: "\<forall>j<n. txn_ok (txn env (Suc j))" and bad: "\<not> txn_ok (txn env (Suc n))"
  proof -
    have "sync_loop env 0 ?pend (patients w) =
            (map (\<lambda>q. if q \<in> set (take n ?pend)
                      then mark (clock env (0 + position q ?pend)) q else q) (patients w),
             if n < length ?pend then Some (request_error (txn env (Suc (0 + n)))) else None)"
      using ok bad n by (intro sync_loop_map [OF assms pp]) simp_all
    then show ?thesis
      using io n
      by (auto simp: syncPendingData_def getPendingPatients_def pending_records_def mark_def)
  qed
  have unread: "syncPendingData env clients w = w"
    if "\<not> (open_ok (txn env 0) \<and> get_ok (txn env 0))"
    using that by (auto simp: syncPendingData_def getPendingPatients_def)
  have net: "fetched (syncPendingData env clients w) = fetched w"
    by (simp add: syncPendingData_def split: sum.splits prod.splits option.splits)
  from success empty unread failure net show ?thesis by blast
qed

theorem sync_marks_and_notifies_witness:
  "distinct (map patient_id (patients (worker_with three_pending))) \<and>
   pending_records (patients (worker_with three_pending)) = [pat10, pat2, pat3] \<and>
   syncPendingData calm [7] (worker_with three_pending) =
     \<lparr>caches = [],
      patients = [mark (example_clock 0) pat10, mark (example_clock 1) pat2,
                  mark (example_clock 2) pat3],
      fetched = [], posted = [(7, SYNC_COMPLETE 3)]\<rparr> \<and>
   syncPendingData second_mark_fails [7] (worker_with three_pending) =
     \<lparr>caches = [], patients = [mark (example_clock 0) pat10, pat2, pat3],
      fetched = [], posted = []\<rparr> \<and>
   syncPendingData calm [7] (worker_with []) = worker_with []"
proof -
  note th = sync_marks_and_notifies [OF three_pending_distinct, where clients = "[7]"]
  have ok: "txn_ok (txn calm j)" "open_ok (txn calm j)" "get_ok (txn calm j)" for j
    by (simp_all add: calm_def all_ok_def txn_ok_def)
  have bad: "open_ok (txn second_mark_fails 0)" "get_ok (txn second_mark_fails 0)"
    "txn_ok (txn second_mark_fails (Suc 0))" "\<not> txn_ok (txn second_mark_fails (Suc (Suc 0)))"
    by (simp_all add: second_mark_fails_def all_ok_def txn_ok_def)
  have a: "syncPendingData calm [7] (worker_with three_pending) =
     \<lparr>caches = [],
      patients = [mark (example_clock 0) pat10, mark (example_clock 1) pat2,
                  mark (example_clock 2) pat3],
      fetched = [], posted = [(7, SYNC_COMPLETE 3)]\<rparr>"
    using th [where env = calm and n = 0] unfolding three_pending_records
    by (simp add: ok pats_differ pats_pending mark_def)
       (simp add: worker_with_def three_pending_eq pats_pending pats_differ calm_def
          numeral_2_eq_2)
  have b: "syncPendingData second_mark_fails [7] (worker_with three_pending) =
     \<lparr>caches = [], patients = [mark (example_clock 0) pat10, pat2, pat3],
      fetched = [], posted = []\<rparr>"
    using th [where env = second_mark_fails and n = "Suc 0"] unfolding three_pending_records
    by (simp add: bad pats_differ pats_pending mark_def)
       (simp add: worker_with_def three_pending_eq pats_differ second_mark_fails_def)
  have e: "distinct (map patient_id (patients (worker_with [])))"
    by (simp add: worker_with_def)
  have c: "syncPendingData calm [7] (worker_with []) = worker_with []"
    using sync_marks_and_notifies [OF e, where env = calm and clients = "[7]" and n = 0]
    by (simp add: worker_with_def pending_records_def index_getAll_def)
  show ?thesis
    using three_pending_distinct three_pending_records a b c by simp
qed

text \<open>
  With a client connected: three pending records are marked without a fetch; a run over
  an empty store posts no message; a run whose second mark fails posts no message,
  though one record was reconciled; and that record is \<open>PAT-10\<close>, the last one created.
\<close>

theorem sync_counterexample:
  "fetched (syncPendingData calm [7] (worker_with three_pending)) = [] \<and>
   pending_records (patients (syncPendingData calm [7] (worker_with three_pending))) = [] \<and>
   posted (syncPendingData calm [7] (worker_with [])) = [] \<and>
   posted (syncPendingData second_mark_fails [7] (worker_with three_pending)) = [] \<and>
   map patient_id (index_getAll (JStr ''synced'')
     (patients (syncPendingData second_mark_fails [7] (worker_with three_pending)))) = [''PAT-10'']"
  by (simp add: syncPendingData_def getPendingPatients_def calm_def second_mark_fails_def
      all_ok_def worker_with_def three_pending_eq index_getAll_def pat2_def pat3_def pat10_def
      new_patient_def markAsSynced_def store_get_def store_put_def pending_records_def)

subsection \<open>The bridge\<close>

lemma deliver_Resolved: "deliver ev (Resolved a) = Resolved a"
  by (cases ev) (simp_all add: resolve_def)

lemma fold_deliver_Resolved: "fold deliver events (Resolved a) = Resolved a"
  by (induction events) (simp_all add: deliver_Resolved)

lemma replies_at_most_one: "length (snd (on_message env clients msg w)) \<le> 1"
  by (auto simp: on_message_def message_body_def Let_def split: sum.splits option.splits)

text \<open>
  Claim C2, as the code has it. The listener posts at most one reply to a message. A
  call of \<open>sendMessageToSW\<close> made while a worker controls the page is settled once, with
  a reply object that is a success or a failure carrying an error text: with the reply of
  the worker when it comes before the timer of 5000 ms, and with the failure \<open>Timeout\<close>
  when the reply comes later or never. A call made while no worker controls the page is
  settled at once with \<open>null\<close>, and no message is sent.
\<close>

theorem bridge_answers_once:
  "length (snd (on_message env clients msg w)) \<le> 1 \<and>
   (\<exists>r. bridge_call True d env clients msg w = Resolved (Answer r) \<and>
        (is_success r \<or> (\<exists>m. r = Failure m)) \<and>
        (d = InTime \<and> snd (on_message env clients msg w) \<noteq> [] \<longrightarrow>
           r = hd (snd (on_message env clients msg w))) \<and>
        (d \<noteq> InTime \<or> snd (on_message env clients msg w) = [] \<longrightarrow> r = Failure ''Timeout'')) \<and>
   bridge_call False d env clients msg w = Resolved Null"
proof -
  let ?rs = "snd (on_message env clients msg w)"
  have shape: "is_success r \<or> (\<exists>m. r = Failure m)" for r
    by (cases r) (simp_all add: is_success_def)
  have call: "bridge_call True d env clients msg w =
                Resolved (Answer (if d = InTime \<and> ?rs \<noteq> [] then hd ?rs else Failure ''Timeout''))"
  proof (cases d)
    case InTime
    show ?thesis
    proof (cases ?rs)
      case Nil
      with InTime show ?thesis
        by (simp add: bridge_call_def sendMessageToSW_def resolve_def)
    next
      case (Cons r rs)
      with InTime show ?thesis
        by (simp add: bridge_call_def sendMessageToSW_def resolve_def fold_deliver_Resolved)
    qed
  next
    case Late
    then show ?thesis
      by (simp add: bridge_call_def sendMessageToSW_def resolve_def fold_deliver_Resolved)
  next
    case Lost
    then show ?thesis
      by (simp add: bridge_call_def sendMessageToSW_def resolve_def)
  qed
  have null: "bridge_call False d env clients msg w = Resolved Null"
    by (simp add: bridge_call_def sendMessageToSW_def)
  show ?thesis
    using replies_at_most_one [of env clients msg w] shape null unfolding call by auto
qed

theorem bridge_answers_once_witness:
  "bridge_call True InTime calm [7] get_patients_message (worker_with three_pending) =
     Resolved (Answer (SuccessData [pat10, pat2, pat3])) \<and>
   bridge_call True Late calm [7] get_patients_message (worker_with three_pending) =
     Resolved (Answer (Failure ''Timeout'')) \<and>
   bridge_call True InTime read_fails [7] clear_message (worker_with three_pending) =
     Resolved (Answer (Failure ''Timeout''))"
proof -
  have a: "snd (on_message calm [7] get_patients_message (worker_with three_pending)) =
             [SuccessData [pat10, pat2, pat3]]"
    by (simp add: on_message_def message_body_def get_patients_message_def getAllPatients_def
        calm_def all_ok_def worker_with_def three_pending_eq)
  have b: "snd (on_message read_fails [7] clear_message (worker_with three_pending)) = []"
    by (simp add: on_message_def message_body_def clear_message_def read_fails_def all_ok_def)
  show ?thesis
    using bridge_answers_once [of calm "[7]" get_patients_message "worker_with three_pending" InTime]
      bridge_answers_once [of calm "[7]" get_patients_message "worker_with three_pending" Late]
      bridge_answers_once [of read_fails "[7]" clear_message "worker_with three_pending" InTime]
    unfolding a b by auto
qed

text \<open>
  Without a controlling worker the caller gets \<open>null\<close>, which is neither a success
  payload nor a failure with an error text.
\<close>

theorem bridge_counterexample:
  "bridge_call False InTime calm [7] get_patients_message (worker_with three_pending) =
     Resolved Null \<and>
   Null \<noteq> Answer (SuccessData [pat10, pat2, pat3]) \<and> Null \<noteq> Answer (Failure ''Timeout'')"
  by (simp add: bridge_call_def sendMessageToSW_def)

subsection \<open>Export and import\<close>

lemma get_property_object: "get_property (JSON_object properties) name = Inr (map_of (rev properties) name)"
  by (simp add: get_property_def)

lemma get_property_not_null: "v \<noteq> JSON_null \<Longrightarrow> \<exists>i. get_property v name = Inr i"
  by (cases v) (simp_all add: get_property_def)

text \<open>The filter keeps a list as it is when no identifier in it repeats or has been seen.\<close>

lemma remove_duplicates_distinct:
  assumes "JSON_null \<notin> set ps"
    and "distinct (map (\<lambda>p. get_property p ''id'') ps)"
    and "\<forall>p \<in> set ps. get_property p ''id'' \<notin> Inr ` set uniqueIds"
  shows "remove_duplicates uniqueIds ps = Inr ps"
  using assms
proof (induction ps arbitrary: uniqueIds)
  case Nil
  show ?case by simp
next
  case (Cons p ps)
  from Cons.prems(1) have "p \<noteq> JSON_null" by auto
  then obtain i where i: "get_property p ''id'' = Inr i"
    using get_property_not_null by blast
  have new: "i \<notin> set uniqueIds"
    using Cons.prems(3) i by auto
  have "\<forall>q \<in> set ps. get_property q ''id'' \<notin> Inr ` set (i # uniqueIds)"
    using Cons.prems(2,3) i by (auto simp: image_iff)
  then have "remove_duplicates (i # uniqueIds) ps = Inr ps"
    using Cons.prems(1,2) by (intro Cons.IH) auto
  then show ?case using i new by simp
qed

text \<open>What \<open>importData\<close> finds in the text that \<open>exportData\<close> has written.\<close>

lemma parse_export:
  "JSON_parse (exportData now currentUser ps) =
     Some (JSON_object
             [(''patients'', JSON_array ps),
              (''metadata'',
                 JSON_object
                   [(''exportedAt'', JSON_string now),
                    (''totalPatients'', JSON_number (int (length ps))),
                    (''appVersion'', JSON_string ''1.0.0''),
                    (''user'', currentUser)])])"
  unfolding exportData_def by (rule JSON_parse_stringify)

text \<open>
  Claim C9. The records of the specification are uniquely keyed. For every list of
  patient records (none of them \<open>null\<close>) whose identifiers are pairwise different, the
  text that \<open>exportData\<close> writes, read by \<open>importData\<close> into an empty list, gives the same
  records back, each with all its content and in the same order, and the notification
  that so many records were imported.
\<close>

theorem export_import_roundtrip:
  assumes "JSON_null \<notin> set ps"
    and "distinct (map (\<lambda>p. get_property p ''id'') ps)"
  shows "importData (exportData now currentUser ps) [] = (ps, Imported (length ps))"
proof -
  have "remove_duplicates [] ps = Inr ps"
    using assms by (intro remove_duplicates_distinct) auto
  then show ?thesis
    by (simp add: importData_def parse_export get_property_object)
qed

theorem export_import_roundtrip_witness:
  "JSON_null \<notin> set [patient_record ''PAT-1002'' ''Asha Rao'' 34,
                      patient_record ''PAT-1001'' ''Ben Ode'' 61] \<and>
   distinct (map (\<lambda>p. get_property p ''id'')
               [patient_record ''PAT-1002'' ''Asha Rao'' 34,
                patient_record ''PAT-1001'' ''Ben Ode'' 61]) \<and>
   importData
     (exportData ''2024-05-01T12:00:00.000Z'' example_user
        [patient_record ''PAT-1002'' ''Asha Rao'' 34, patient_record ''PAT-1001'' ''Ben Ode'' 61])
     [] =
     ([patient_record ''PAT-1002'' ''Asha Rao'' 34, patient_record ''PAT-1001'' ''Ben Ode'' 61],
      Imported 2)"
proof -
  have n: "JSON_null \<notin> set [patient_record ''PAT-1002'' ''Asha Rao'' 34,
                             patient_record ''PAT-1001'' ''Ben Ode'' 61]"
    by (simp add: patient_record_def)
  have d: "distinct (map (\<lambda>p. get_property p ''id'')
               [patient_record ''PAT-1002'' ''Asha Rao'' 34,
                patient_record ''PAT-1001'' ''Ben Ode'' 61])"
    by (simp add: patient_record_def get_property_def)
  show ?thesis
    using n d
      export_import_roundtrip [OF n d, where now = "''2024-05-01T12:00:00.000Z''"
        and currentUser = example_user]
    by simp
qed

text \<open>The text of an export, as \<open>JSON.stringify(data, null, 2)\<close> lays it out.\<close>

lemma export_text:
  \<open>exportData ''2024-05-01T12:00:00.000Z'' JSON_null
     [JSON_object [(''id'', JSON_string ''PAT-7''), (''age'', JSON_number 42)]] =
   concat
     [''{'', [CHR 0x0A],
      ''  "patients": ['', [CHR 0x0A],
      ''    {'', [CHR 0x0A],
      ''      "id": "PAT-7",'', [CHR 0x0A],
      ''      "age": 42'', [CHR 0x0A],
      ''    }'', [CHR 0x0A],
      ''  ],'', [CHR 0x0A],
      ''  "metadata": {'', [CHR 0x0A],
      ''    "exportedAt": "2024-05-01T12:00:00.000Z",'', [CHR 0x0A],
      ''    "totalPatients": 1,'', [CHR 0x0A],
      ''    "appVersion": "1.0.0",'', [CHR 0x0A],
      ''    "user": null'', [CHR 0x0A],
      ''  }'', [CHR 0x0A],
      ''}'']\<close>
  by code_simp

text \<open>
  Files that are no export: a text that is not JSON, the text \<open>null\<close>, and an object
  whose \<open>patients\<close> is not an array. The import fails and the list stays as it is.
\<close>

lemma import_rejects:
  \<open>importData ''patients'' [patient_record ''PAT-1'' ''Asha Rao'' 34] =
     ([patient_record ''PAT-1'' ''Asha Rao'' 34], ImportFailed) \<and>
   importData ''null'' [patient_record ''PAT-1'' ''Asha Rao'' 34] =
     ([patient_record ''PAT-1'' ''Asha Rao'' 34], ImportFailed) \<and>
   importData ''{"patients": {"0": 1}, "metadata": {}}'' [patient_record ''PAT-1'' ''Asha Rao'' 34] =
     ([patient_record ''PAT-1'' ''Asha Rao'' 34], ImportFailed)\<close>
  by code_simp

end
